theory Spec2Isabelle
  imports Main "HOL-Library.Sublist"
begin

section \<open>Strings\<close>

text \<open>
  JavaScript strings are sequences of UTF-16 code units. The model uses HOL strings and
  reads a \<open>char\<close> as a code unit below 256 (the Latin-1 range), which covers every
  marker, delimiter and commit-type name of the program.
\<close>

text \<open>\<open>Array.prototype.join\<close> on an array of strings.\<close>

fun join :: "string \<Rightarrow> string list \<Rightarrow> string" where
  "join sep [] = []"
| "join sep [x] = x"
| "join sep (x # y # ys) = x @ sep @ join sep (y # ys)"

text \<open>
  The first occurrence of a separator: the text before it and the text after it
  (\<open>String.prototype.indexOf\<close> followed by two slices).
\<close>

fun find_sep :: "string \<Rightarrow> string \<Rightarrow> (string \<times> string) option" where
  "find_sep sep [] = (if sep = [] then Some ([], []) else None)"
| "find_sep sep (c # cs) =
     (if prefix sep (c # cs) then Some ([], drop (length sep) (c # cs))
      else map_option (\<lambda>(b, a). (c # b, a)) (find_sep sep cs))"

text \<open>
  \<open>String.prototype.split\<close> with a string separator and no limit: the pieces between
  the non-overlapping occurrences of the separator, scanning from the left. A string
  without the separator is returned whole (also the empty string); the empty separator
  splits into code units.
\<close>

function split :: "string \<Rightarrow> string \<Rightarrow> string list" where
  "split sep s =
     (if sep = [] then map (\<lambda>c. [c]) s
      else case find_sep sep s of
             None \<Rightarrow> [s]
           | Some (b, a) \<Rightarrow> b # split sep a)"
  by pat_completeness auto
termination
proof (relation "measure (\<lambda>(sep, s). length s)")
  show "wf (measure (\<lambda>(sep, s). length s))"
    by simp
next
  fix sep s :: string and x2 b a
  assume sep: "sep \<noteq> []" and found: "find_sep sep s = Some x2" and x2: "(b, a) = x2"
  have shorter: "length a' < length t" if "find_sep sep t = Some (b', a')" for t b' a'
    using that
  proof (induction t arbitrary: b')
    case Nil
    with sep show ?case by simp
  next
    case (Cons c cs)
    show ?case
    proof (cases "prefix sep (c # cs)")
      case True
      with Cons.prems sep show ?thesis by auto
    next
      case False
      with Cons.prems obtain b'' where "find_sep sep cs = Some (b'', a')"
        by (auto split: prod.splits)
      from Cons.IH [OF this] show ?thesis by simp
    qed
  qed
  from found x2 have "length a < length s"
    by (intro shorter [of s b a]) simp
  then show "((sep, a), (sep, s)) \<in> measure (\<lambda>(sep, s). length s)"
    by simp
qed

declare split.simps [simp del]

text \<open>Reading an array element that may be out of range (\<open>undefined\<close> is \<open>None\<close>).\<close>

fun nth_opt :: "'a list \<Rightarrow> nat \<Rightarrow> 'a option" where
  "nth_opt [] n = None"
| "nth_opt (x # xs) 0 = Some x"
| "nth_opt (x # xs) (Suc n) = nth_opt xs n"

text \<open>\<open>String.prototype.toLowerCase\<close> on code units below 256.\<close>

definition lower_char :: "char \<Rightarrow> char" where
  "lower_char c =
     (let n = (of_char c :: int)
      in if (65 \<le> n \<and> n \<le> 90) \<or> (192 \<le> n \<and> n \<le> 222 \<and> n \<noteq> 215)
         then char_of (n + 32) else c)"

definition toLowerCase :: "string \<Rightarrow> string" where
  "toLowerCase s = map lower_char s"

text \<open>The characters that \<open>.\<close> does not match (line terminators below 256).\<close>

definition is_line_terminator :: "char \<Rightarrow> bool" where
  "is_line_terminator c \<longleftrightarrow> c = CHR 0x0A \<or> c = CHR 0x0D"

text \<open>White space and line terminators removed by \<open>String.prototype.trim\<close>.\<close>

definition is_white_space :: "char \<Rightarrow> bool" where
  "is_white_space c \<longleftrightarrow>
     c = CHR 0x09 \<or> c = CHR 0x0A \<or> c = CHR 0x0B \<or> c = CHR 0x0C \<or> c = CHR 0x0D
     \<or> c = CHR 0x20 \<or> c = CHR 0xA0"

definition trimEnd :: "string \<Rightarrow> string" where
  "trimEnd s = rev (dropWhile is_white_space (rev s))"

definition trim :: "string \<Rightarrow> string" where
  "trim s = trimEnd (dropWhile is_white_space s)"

section \<open>Configuration: \<open>gitConfig\<close>\<close>

datatype CommitType =
  Build | Chore | CI | Docs | Feat | Fix | Perf | Refactor | Revert | Style | Test

text \<open>The keys of \<open>gitConfig.commitTypes\<close> in declaration order.\<close>

definition commitTypes :: "CommitType list" where
  "commitTypes = [Build, Chore, CI, Docs, Feat, Fix, Perf, Refactor, Revert, Style, Test]"

text \<open>The \<open>type\<close> field of an entry, which is also its key.\<close>

fun type_name :: "CommitType \<Rightarrow> string" where
  "type_name Build = ''build''"
| "type_name Chore = ''chore''"
| "type_name CI = ''ci''"
| "type_name Docs = ''docs''"
| "type_name Feat = ''feat''"
| "type_name Fix = ''fix''"
| "type_name Perf = ''perf''"
| "type_name Refactor = ''refactor''"
| "type_name Revert = ''revert''"
| "type_name Style = ''style''"
| "type_name Test = ''test''"

text \<open>The \<open>title\<close> field of an entry.\<close>

fun title :: "CommitType \<Rightarrow> string" where
  "title Build = ''Build''"
| "title Chore = ''Chores''"
| "title CI = ''CI''"
| "title Docs = ''Documentation''"
| "title Feat = ''Features''"
| "title Fix = ''Fixes''"
| "title Perf = ''Performance''"
| "title Refactor = ''Refactor''"
| "title Revert = ''Revert''"
| "title Style = ''Styles''"
| "title Test = ''Testing''"

definition marker_begin :: string where "marker_begin = ''__BEGIN__''"
definition marker_body :: string where "marker_body = ''__BODY__''"
definition marker_files :: string where "marker_files = ''__FILES__''"
definition marker_delim :: string where "marker_delim = ''__DELIM__''"

section \<open>Data model\<close>

datatype error =
    TypeError          \<comment> \<open>a property read on \<open>undefined\<close>\<close>
  | Error string       \<comment> \<open>\<open>throw new Error(message)\<close>\<close>
  | Rejected string    \<comment> \<open>a failed child process or HTTP call\<close>

record CommitDetail =
  type :: CommitType
  breaking :: bool

text \<open>
  \<open>Commit\<close> is the intersection of its own fields with \<open>CommitDetail\<close>.
  \<open>authorDate\<close> is the time value of the \<open>Date\<close> in milliseconds, \<open>None\<close> for an
  invalid date.
\<close>

record Commit = CommitDetail +
  commitHashAbbr :: string
  authorName :: string
  authorDate :: "int option"
  subject :: string
  files :: "string list"

text \<open>The keys of a \<open>CommitGroup\<close>: \<open>CommitType | 'breaking'\<close>.\<close>

datatype group_key = Breaking | Type CommitType

text \<open>
  A \<open>CommitGroup\<close> is an object whose own properties are enumerated in the order in
  which they were created: an association list, a new key going to the end.
\<close>

type_synonym CommitGroup = "(group_key \<times> Commit list) list"

fun obj_set :: "'k \<Rightarrow> 'v \<Rightarrow> ('k \<times> 'v) list \<Rightarrow> ('k \<times> 'v) list" where
  "obj_set k v [] = [(k, v)]"
| "obj_set k v ((k', v') # kvs) =
     (if k' = k then (k, v) # kvs else (k', v') # obj_set k v kvs)"

text \<open>A \<open>Set\<close> of strings, iterated in insertion order.\<close>

definition set_add :: "'a \<Rightarrow> 'a list \<Rightarrow> 'a list" where
  "set_add x xs = (if x \<in> set xs then xs else xs @ [x])"

section \<open>The commit-log parser\<close>

subsection \<open>\<open>parseInt\<close> and \<open>new Date\<close>\<close>

fun digit_value :: "int \<Rightarrow> char \<Rightarrow> int option" where
  "digit_value radix c =
     (let n = (of_char c :: int);
          v = (if 48 \<le> n \<and> n \<le> 57 then Some (n - 48)
               else if 97 \<le> n \<and> n \<le> 102 then Some (n - 87)
               else if 65 \<le> n \<and> n \<le> 70 then Some (n - 55)
               else None)
      in case v of None \<Rightarrow> None | Some d \<Rightarrow> if d < radix then Some d else None)"

fun digits_value :: "int \<Rightarrow> int \<Rightarrow> string \<Rightarrow> int" where
  "digits_value radix acc [] = acc"
| "digits_value radix acc (c # cs) =
     (case digit_value radix c of
        None \<Rightarrow> acc
      | Some d \<Rightarrow> digits_value radix (acc * radix + d) cs)"

text \<open>
  \<open>parseInt\<close> without a radix: leading white space, a sign, a \<open>0x\<close> prefix, then the
  longest run of digits; \<open>None\<close> is \<open>NaN\<close>. The value is exact where the program
  uses it: a magnitude that a double cannot hold exactly is far beyond the range of
  dates and gives an invalid date either way.
\<close>

definition parseInt :: "string \<Rightarrow> int option" where
  "parseInt input =
     (let s = dropWhile is_white_space input;
          sign = (if prefix ''-'' s then - 1 else 1 :: int);
          s1 = (if prefix ''+'' s \<or> prefix ''-'' s then drop 1 s else s);
          hex = (prefix ''0x'' s1 \<or> prefix ''0X'' s1);
          radix = (if hex then 16 else 10 :: int);
          s2 = (if hex then drop 2 s1 else s1)
      in case s2 of
           [] \<Rightarrow> None
         | c # cs \<Rightarrow>
             (case digit_value radix c of
                None \<Rightarrow> None
              | Some d \<Rightarrow> Some (sign * digits_value radix 0 s2)))"

text \<open>\<open>new Date(parseInt(authorDateUnix) * 1000)\<close>: the time value, clipped.\<close>

definition date_of_unix :: "string \<Rightarrow> int option" where
  "date_of_unix authorDateUnix =
     (case parseInt authorDateUnix of
        None \<Rightarrow> None
      | Some n \<Rightarrow>
          if \<bar>n * 1000\<bar> \<le> 8640000000000000 then Some (n * 1000) else None)"

subsection \<open>The record pattern\<close>

text \<open>
  The regular expression \<^verbatim>\<open>(.*)__BODY__([\s\S]+)?__FILES__([\s\S]+)?\<close> is matched by
  backtracking. A greedy quantifier first tries to take one more character and only then
  tries the rest of the pattern where it stands; an optional group is tried before it is
  skipped, and a skipped group is \<open>undefined\<close> (\<open>None\<close>).
\<close>

text \<open>The last group, \<^verbatim>\<open>([\s\S]+)?\<close>, at the end of the pattern: all the remaining text.\<close>

definition files_group :: "string \<Rightarrow> string option" where
  "files_group rest = (if rest = [] then None else Some rest)"

text \<open>
  \<^verbatim>\<open>[\s\S]+\<close> followed by \<^verbatim>\<open>__FILES__\<close>: at least one character of any kind, as many
  as possible. The result is the text taken and the text after the files marker.
\<close>

fun body_chars :: "string \<Rightarrow> (string \<times> string) option" where
  "body_chars [] = None"
| "body_chars (c # cs) =
     (case body_chars cs of
        Some (b, rest) \<Rightarrow> Some (c # b, rest)
      | None \<Rightarrow>
          if prefix marker_files cs then Some ([c], drop (length marker_files) cs)
          else None)"

text \<open>\<^verbatim>\<open>([\s\S]+)?__FILES__([\s\S]+)?\<close>, on the text after the body marker.\<close>

definition after_body :: "string \<Rightarrow> (string option \<times> string option) option" where
  "after_body s =
     (case body_chars s of
        Some (b, rest) \<Rightarrow> Some (Some b, files_group rest)
      | None \<Rightarrow>
          if prefix marker_files s
          then Some (None, files_group (drop (length marker_files) s))
          else None)"

text \<open>\<^verbatim>\<open>__BODY__([\s\S]+)?__FILES__([\s\S]+)?\<close> at the current position.\<close>

definition from_body :: "string \<Rightarrow> (string option \<times> string option) option" where
  "from_body s =
     (if prefix marker_body s then after_body (drop (length marker_body) s) else None)"

text \<open>
  The whole pattern at a fixed start: \<^verbatim>\<open>(.*)\<close> takes characters other than line
  terminators, as many as possible.
\<close>

fun match_here :: "string \<Rightarrow> (string \<times> string option \<times> string option) option" where
  "match_here [] = map_option (\<lambda>(b, f). ([], b, f)) (from_body [])"
| "match_here (c # cs) =
     (case (if is_line_terminator c then None else match_here cs) of
        Some (h, b, f) \<Rightarrow> Some (c # h, b, f)
      | None \<Rightarrow> map_option (\<lambda>(b, f). ([], b, f)) (from_body (c # cs)))"

text \<open>
  \<open>String.prototype.match\<close> with the pattern (no flags): the match at the leftmost
  start that has one. The result is \<open>(header, body, files)\<close>, the three groups.
\<close>

fun match_record :: "string \<Rightarrow> (string \<times> string option \<times> string option) option" where
  "match_record [] = match_here []"
| "match_record (c # cs) =
     (case match_here (c # cs) of
        Some r \<Rightarrow> Some r
      | None \<Rightarrow> match_record cs)"

subsection \<open>\<open>assertCommitType\<close> and \<open>getCommitDetail\<close>\<close>

text \<open>
  \<open>subject.match\<close> with the pattern \<^verbatim>\<open>^(build|chore|...|test)(\!?):\<close>: the alternatives
  are tried in the order of the keys; the result is the two groups.
\<close>

fun match_type :: "CommitType list \<Rightarrow> string \<Rightarrow> (string \<times> string) option" where
  "match_type [] s = None"
| "match_type (t # ts) s =
     (if prefix (type_name t) s then
        (let r = drop (length (type_name t)) s
         in if prefix ''!:'' r then Some (type_name t, ''!'')
            else if prefix '':'' r then Some (type_name t, [])
            else match_type ts s)
      else match_type ts s)"

definition commit_type_message :: "string option \<Rightarrow> string" where
  "commit_type_message t =
     ''Commit type '' @ [CHR 0x22] @ (case t of None \<Rightarrow> ''undefined'' | Some n \<Rightarrow> n)
       @ [CHR 0x22] @ '' does not match allowed types by config-conventional.''"

text \<open>
  The assertion narrows a string to a \<open>CommitType\<close>: the model returns the key that the
  string names.
\<close>

definition assertCommitType :: "string option \<Rightarrow> error + CommitType" where
  "assertCommitType t =
     (case t of
        None \<Rightarrow> Inl (Error (commit_type_message t))
      | Some n \<Rightarrow>
          (case find (\<lambda>k. type_name k = n) commitTypes of
             None \<Rightarrow> Inl (Error (commit_type_message t))
           | Some k \<Rightarrow> Inr k))"

definition getCommitDetail :: "string \<Rightarrow> string option \<Rightarrow> error + CommitDetail" where
  "getCommitDetail subj body =
     (let m = match_type commitTypes subj;
          ty = map_option fst m;
          breakingInType = map_option snd m;
          brk = (breakingInType = Some ''!''
                 \<or> (case body of
                       None \<Rightarrow> False
                     | Some b \<Rightarrow> prefix ''breaking change:'' (toLowerCase b)))
      in case assertCommitType ty of
           Inl e \<Rightarrow> Inl e
         | Inr t \<Rightarrow> Inr \<lparr>type = t, breaking = brk\<rparr>)"

subsection \<open>\<open>parseCommits\<close>\<close>

text \<open>
  One record, the body of the reducer up to the commit object. A pattern that does not
  match leaves \<open>header\<close> undefined and \<open>header.split\<close> throws; an absent files group
  leaves \<open>files\<close> undefined and \<open>files.split\<close> throws; a header of fewer than four fields
  leaves \<open>subject\<close> undefined and \<open>subject.match\<close> throws. Fields after the fourth are
  not read.
\<close>

definition parse_record :: "string \<Rightarrow> error + Commit" where
  "parse_record cur =
     (case match_record cur of
        None \<Rightarrow> Inl TypeError
      | Some (header, body, fs) \<Rightarrow>
          (case fs of
             None \<Rightarrow> Inl TypeError
           | Some fls \<Rightarrow>
               (case split marker_delim header of
                  hashAbbr # author # authorDateUnix # subj # _ \<Rightarrow>
                    (case getCommitDetail subj body of
                       Inl e \<Rightarrow> Inl e
                     | Inr d \<Rightarrow>
                         Inr \<lparr>type = type d, breaking = breaking d,
                              commitHashAbbr = hashAbbr,
                              authorName = author,
                              authorDate = date_of_unix authorDateUnix,
                              subject = subj,
                              files = filter (\<lambda>l. l \<noteq> []) (split ''\<newline>'' fls)\<rparr>)
                | _ \<Rightarrow> Inl TypeError)))"

text \<open>The bucket a commit goes to.\<close>

definition bucket_of :: "Commit \<Rightarrow> group_key" where
  "bucket_of commit = (if breaking commit then Breaking else Type (type commit))"

text \<open>
  Both assignments of the reducer append the commit to the bucket, creating it when it
  is absent.
\<close>

definition add_commit :: "CommitGroup \<Rightarrow> Commit \<Rightarrow> CommitGroup" where
  "add_commit acc commit =
     (let k = bucket_of commit
      in obj_set k ((case map_of acc k of None \<Rightarrow> [] | Some cs \<Rightarrow> cs) @ [commit]) acc)"

text \<open>
  The reduction over the records, with the set of contributors as a second component
  of the state. An exception ends it.
\<close>

fun reduce_commits ::
  "CommitGroup \<times> string list \<Rightarrow> string list \<Rightarrow> error + (CommitGroup \<times> string list)" where
  "reduce_commits st [] = Inr st"
| "reduce_commits (acc, contributors) (cur # rest) =
     (case parse_record cur of
        Inl e \<Rightarrow> Inl e
      | Inr commit \<Rightarrow>
          reduce_commits (add_commit acc commit, set_add (authorName commit) contributors) rest)"

text \<open>\<open>output.split(gitConfig.markers.begin).toSpliced(0, 1)\<close>\<close>

definition records :: "string \<Rightarrow> string list" where
  "records output = drop 1 (split marker_begin output)"

definition parseCommits :: "string \<Rightarrow> error + (CommitGroup \<times> string list)" where
  "parseCommits output = reduce_commits ([], []) (records output)"

section \<open>The changelog renderer\<close>

definition bullet :: "Commit \<Rightarrow> string" where
  "bullet commit = ''- ('' @ commitHashAbbr commit @ '') '' @ subject commit"

text \<open>The first block of the renderer, on an empty output.\<close>

definition breaking_section :: "CommitGroup \<Rightarrow> string" where
  "breaking_section commitGroups =
     (case map_of commitGroups Breaking of
        None \<Rightarrow> []
      | Some commits \<Rightarrow>
          if length commits > 0
          then ''## Breaking Changes:\<newline>'' @ join ''\<newline>'' (map bullet commits)
          else [])"

text \<open>One pass of the loop over \<open>Object.entries(commitGroups)\<close>.\<close>

definition section_step :: "string \<Rightarrow> group_key \<times> Commit list \<Rightarrow> string" where
  "section_step output entry =
     (case entry of
        (Breaking, commits) \<Rightarrow> output
      | (Type key, commits) \<Rightarrow>
          if length commits < 1 then output
          else output @ ''\<newline>## '' @ title key @ '':\<newline>''
                 @ join ''\<newline>'' (map bullet commits))"

definition category_sections :: "string \<Rightarrow> CommitGroup \<Rightarrow> string" where
  "category_sections output commitGroups = foldl section_step output commitGroups"

definition thanks_section :: "string list \<Rightarrow> string" where
  "thanks_section contributors =
     ''\<newline>## Thanks:\<newline>'' @ join '', '' (map (\<lambda>contributor. ''@'' @ contributor) contributors)"

text \<open>The renderer after the log has been read and parsed.\<close>

definition render_markdown :: "CommitGroup \<Rightarrow> string list \<Rightarrow> string" where
  "render_markdown commitGroups contributors =
     trim (category_sections (breaking_section commitGroups) commitGroups
             @ thanks_section contributors)"

section \<open>Processes, the release API and the console\<close>

record GitHubReleaseRequest =
  name :: string
  tag_name :: string
  body :: string
  target_commitish :: string

record GitHubReleaseResponse =
  url :: string
  assets_url :: string
  upload_url :: string
  html_url :: string
  response_id :: int
  created_at :: string
  published_at :: string

record http_request =
  request_url :: string
  request_method :: string
  headers :: "(string \<times> string) list"
  data :: GitHubReleaseRequest

text \<open>What the program does to the world, in order.\<close>

datatype effect =
    Spawn string "string list"    \<comment> \<open>a child process: command and arguments\<close>
  | Http http_request             \<comment> \<open>a request sent by \<open>axios\<close>\<close>
  | ConsoleLog string

text \<open>
  The collaborators: what a child process prints (or its failure), the environment
  variable, and the answer of the release API (or its failure).
\<close>

record env =
  execa :: "string \<Rightarrow> string list \<Rightarrow> error + string"
  GITHUB_TOKEN :: "string option"
  axios :: "http_request \<Rightarrow> error + GitHubReleaseResponse"

type_synonym 'a io = "effect list \<Rightarrow> (error + 'a) \<times> effect list"

definition runCommand :: "env \<Rightarrow> string \<Rightarrow> string list \<Rightarrow> string io" where
  "runCommand e command args w = (execa e command args, w @ [Spawn command args])"

definition getGitLogFormat :: string where
  "getGitLogFormat =
     concat [marker_begin,
             join marker_delim [''%h'', ''%an'', ''%at'', ''%s''],
             marker_body,
             ''%b'',
             marker_files]"

definition log_args :: "string \<Rightarrow> string \<Rightarrow> string list" where
  "log_args from to =
     [''--no-pager'', ''log'', ''--name-only'',
      ''--pretty=format:'' @ [CHR 0x22] @ getGitLogFormat @ [CHR 0x22],
      from @ ''...'' @ to]"

definition getCommits :: "env \<Rightarrow> string \<Rightarrow> string \<Rightarrow> (CommitGroup \<times> string list) io" where
  "getCommits e from to w =
     (case runCommand e ''git'' (log_args from to) w of
        (Inl err, w1) \<Rightarrow> (Inl err, w1)
      | (Inr output, w1) \<Rightarrow> (parseCommits output, w1))"

definition createGitHubPush :: "env \<Rightarrow> unit io" where
  "createGitHubPush e w =
     (case runCommand e ''git'' [''push'', ''--follow-tags''] w of
        (Inl err, w1) \<Rightarrow> (Inl err, w1)
      | (Inr _, w1) \<Rightarrow> (Inr (), w1))"

definition getParentHashFromVersionTag :: "env \<Rightarrow> string \<Rightarrow> string io" where
  "getParentHashFromVersionTag e tag = runCommand e ''git'' [''rev-parse'', tag @ ''^{}'']"

text \<open>
  The body of the release is \<open>release_body\<close> here: \<open>body\<close> is a field of the request.
\<close>

record CreateGitHubReleaseParams =
  tag :: string
  release_body :: string
  commitHash :: string
  repo :: string
  owner :: string

text \<open>An absent variable and an empty one are both falsy.\<close>

definition createGitHubRelease :: "env \<Rightarrow> CreateGitHubReleaseParams \<Rightarrow> unit io" where
  "createGitHubRelease e p w =
     (case GITHUB_TOKEN e of
        None \<Rightarrow> (Inl (Error (''No '' @ [CHR 0x22] @ ''GH_TOKEN'' @ [CHR 0x22]
                               @ '' found in environment variables.'')), w)
      | Some token \<Rightarrow>
          if token = [] then
            (Inl (Error (''No '' @ [CHR 0x22] @ ''GH_TOKEN'' @ [CHR 0x22]
                          @ '' found in environment variables.'')), w)
          else
            (let payload = \<lparr>name = ''Release v'' @ tag p, tag_name = tag p,
                            body = release_body p, target_commitish = commitHash p\<rparr>;
                 request = \<lparr>request_url = ''https://api.github.com/repos/'' @ owner p
                                           @ ''/'' @ repo p @ ''/releases'',
                            request_method = ''post'',
                            headers = [(''Authorization'', ''Bearer '' @ token)],
                            data = payload\<rparr>
             in case axios e request of
                  Inl err \<Rightarrow> (Inl err, w @ [Http request])
                | Inr res \<Rightarrow>
                    (Inr (), w @ [Http request,
                                  ConsoleLog (''Release published: '' @ html_url res)])))"

definition renderChangeLogMarkdown :: "env \<Rightarrow> string \<Rightarrow> string \<Rightarrow> string io" where
  "renderChangeLogMarkdown e from to w =
     (case getCommits e from to w of
        (Inl err, w1) \<Rightarrow> (Inl err, w1)
      | (Inr (commitGroups, contributors), w1) \<Rightarrow>
          (Inr (render_markdown commitGroups contributors), w1))"

text \<open>The fields \<open>from\<close>, \<open>to\<close>, \<open>owner\<close> and \<open>repo\<close> carry the prefix \<open>param_\<close>.\<close>

record GenerateChangelogParams =
  param_from :: string
  param_to :: string
  param_owner :: string
  param_repo :: string
  dryRun :: bool

definition generateChangelog :: "env \<Rightarrow> GenerateChangelogParams \<Rightarrow> unit io" where
  "generateChangelog e p w =
     (case renderChangeLogMarkdown e (param_from p)
             (if dryRun p then ''HEAD'' else param_to p @ ''^'') w of
        (Inl err, w1) \<Rightarrow> (Inl err, w1)
      | (Inr markdown, w1) \<Rightarrow>
          (let w2 = w1 @ [ConsoleLog markdown]
           in if dryRun p then
                (Inr (),
                 w2 @ [ConsoleLog ''Skipping github push and release because dry run was set...''])
              else
                (case createGitHubPush e w2 of
                   (Inl err, w3) \<Rightarrow> (Inl err, w3)
                 | (Inr _, w3) \<Rightarrow>
                     (case getParentHashFromVersionTag e (param_to p) w3 of
                        (Inl err, w4) \<Rightarrow> (Inl err, w4)
                      | (Inr hash, w4) \<Rightarrow>
                          createGitHubRelease e
                            \<lparr>tag = param_to p, release_body = markdown, commitHash = hash,
                             repo = param_repo p, owner = param_owner p\<rparr> w4))))"

section \<open>Notions used to state the properties\<close>

text \<open>The commits of a bucket; an absent bucket has none.\<close>

definition bucket :: "CommitGroup \<Rightarrow> group_key \<Rightarrow> Commit list" where
  "bucket commitGroups k = (case map_of commitGroups k of None \<Rightarrow> [] | Some commits \<Rightarrow> commits)"

text \<open>The sum of the lengths of all buckets.\<close>

definition total_commits :: "CommitGroup \<Rightarrow> nat" where
  "total_commits commitGroups = sum_list (map (\<lambda>(k, commits). length commits) commitGroups)"

text \<open>
  The fields of the header of a record, as \<open>parseCommits\<close> reads them: the first group
  of the record pattern, split on the delimiter; \<open>None\<close> when the pattern does not match.
\<close>

definition header_fields :: "string \<Rightarrow> string list option" where
  "header_fields cur =
     (case match_record cur of
        None \<Rightarrow> None
      | Some (header, bdy, fs) \<Rightarrow> Some (split marker_delim header))"

text \<open>The subject of a record: the fourth field of its header.\<close>

definition record_subject :: "string \<Rightarrow> string option" where
  "record_subject cur =
     (case header_fields cur of None \<Rightarrow> None | Some parts \<Rightarrow> nth_opt parts 3)"

text \<open>
  A subject begins with one of the eleven type names, an optional \<open>!\<close> and a colon.
\<close>

definition recognised_prefix :: "string \<Rightarrow> bool" where
  "recognised_prefix subj \<longleftrightarrow>
     list_ex (\<lambda>t. prefix (type_name t @ '':'') subj \<or> prefix (type_name t @ ''!:'') subj)
       commitTypes"


text \<open>
  A record that the reducer accepts: the record pattern matches it with a files group
  that is present, its header has at least four fields, and the fourth, the subject,
  begins with a type name, an optional \<open>!\<close> and a colon. A record of the input format
  whose files segment is absent is not accepted.
\<close>

definition accepted_record :: "string \<Rightarrow> bool" where
  "accepted_record cur =
     (case match_record cur of
        None \<Rightarrow> False
      | Some (header, bdy, fs) \<Rightarrow>
          fs \<noteq> None
          \<and> (case split marker_delim header of
                hashAbbr # author # authorDateUnix # subj # _ \<Rightarrow> recognised_prefix subj
              | _ \<Rightarrow> False))"

text \<open>
  Two records agree in what the reducer reads of them: the body group, the files group
  and the first four fields of the header.
\<close>

definition same_first_four :: "string \<Rightarrow> string \<Rightarrow> bool" where
  "same_first_four cur cur' =
     (case match_record cur of
        None \<Rightarrow> match_record cur' = None
      | Some (header, bdy, fs) \<Rightarrow>
          (case match_record cur' of
             None \<Rightarrow> False
           | Some (header', bdy', fs') \<Rightarrow>
               bdy = bdy' \<and> fs = fs'
               \<and> take 4 (split marker_delim header) = take 4 (split marker_delim header')))"

text \<open>The text of one category section.\<close>

definition section_text :: "CommitType \<Rightarrow> Commit list \<Rightarrow> string" where
  "section_text t commits =
     ''\<newline>## '' @ title t @ '':\<newline>'' @ join ''\<newline>'' (map bullet commits)"

text \<open>
  The entries of a \<open>CommitGroup\<close> that have a section of their own, in the order of the
  entries: those of a commit type whose bucket is not empty.
\<close>

fun shown_sections :: "CommitGroup \<Rightarrow> (CommitType \<times> Commit list) list" where
  "shown_sections [] = []"
| "shown_sections ((Breaking, commits) # entries) = shown_sections entries"
| "shown_sections ((Type t, commits) # entries) =
     (if commits = [] then shown_sections entries else (t, commits) # shown_sections entries)"

text \<open>
  The sections as the specification words them: one for every commit type with a bucket
  that is not empty, in the order of the table of commit types.
\<close>

definition sections_in_table_order :: "CommitGroup \<Rightarrow> string" where
  "sections_in_table_order commitGroups =
     concat (map (\<lambda>t. if bucket commitGroups (Type t) = [] then []
                       else section_text t (bucket commitGroups (Type t)))
               commitTypes)"

definition render_in_table_order :: "CommitGroup \<Rightarrow> string list \<Rightarrow> string" where
  "render_in_table_order commitGroups contributors =
     trim (breaking_section commitGroups @ sections_in_table_order commitGroups
             @ thanks_section contributors)"

subsection \<open>Logs in the record format\<close>

text \<open>
  The record format of the input: the begin marker, the four header fields joined by the
  delimiter, the body marker, the body, the files marker and the text of the file list.
  The body and the file list may be empty.
\<close>

record log_entry =
  entry_hash :: string
  entry_author :: string
  entry_date :: string
  entry_subject :: string
  entry_body :: string
  entry_files :: string

definition encode_header :: "log_entry \<Rightarrow> string" where
  "encode_header e =
     join marker_delim [entry_hash e, entry_author e, entry_date e, entry_subject e]"

definition encode_record :: "log_entry \<Rightarrow> string" where
  "encode_record e =
     concat [encode_header e, marker_body, entry_body e, marker_files, entry_files e]"

definition encode_log :: "log_entry list \<Rightarrow> string" where
  "encode_log es = concat (map (\<lambda>e. marker_begin @ encode_record e) es)"

text \<open>A field without an underscore cannot hold a marker or a part of one.\<close>

definition plain :: "string \<Rightarrow> bool" where
  "plain f \<longleftrightarrow> CHR ''_'' \<notin> set f"

text \<open>What may follow a field: the end of the text or a marker.\<close>

definition tail_ok :: "string \<Rightarrow> bool" where
  "tail_ok r \<longleftrightarrow> r = [] \<or> prefix ''__'' r"

text \<open>
  A sufficient condition for the encoding of an entry to be accepted: no field has an
  underscore; the header fields have no line terminator; the subject has a recognised type
  prefix; the text of the file list is not empty; and a field that stands between two
  markers is not the bare word \<open>BEGIN\<close> (nor the body the word \<open>BODY\<close>), which would
  read as a marker with the underscores around it.
\<close>

definition accepted_entry :: "log_entry \<Rightarrow> bool" where
  "accepted_entry e \<longleftrightarrow>
     plain (entry_hash e) \<and> plain (entry_author e) \<and> plain (entry_date e)
     \<and> plain (entry_subject e) \<and> plain (entry_body e) \<and> plain (entry_files e)
     \<and> list_all (\<lambda>c. \<not> is_line_terminator c)
          (entry_hash e @ entry_author e @ entry_date e @ entry_subject e)
     \<and> recognised_prefix (entry_subject e)
     \<and> entry_files e \<noteq> []
     \<and> entry_author e \<noteq> ''BEGIN'' \<and> entry_date e \<noteq> ''BEGIN''
     \<and> entry_body e \<noteq> ''BEGIN'' \<and> entry_body e \<noteq> ''BODY''
     \<and> entry_files e \<noteq> ''BEGIN''"

text \<open>The search for a separator finds nothing that begins inside \<open>x\<close>.\<close>

definition skips :: "string \<Rightarrow> string \<Rightarrow> string \<Rightarrow> bool" where
  "skips M x r \<longleftrightarrow>
     find_sep M (x @ r) = map_option (\<lambda>(b, a). (x @ b, a)) (find_sep M r)"

subsection \<open>Example inputs\<close>

text \<open>Two records: \<open>feat: add X\<close> without a body, \<open>fix!: patch Y\<close> with one.\<close>

definition example_log :: string where
  "example_log =
     ''__BEGIN__a1b2c3d__DELIM__Ann__DELIM__1700000000__DELIM__feat: add X__BODY____FILES__\<newline>src/x.ts\<newline>\<newline>__BEGIN__e4f5a6b__DELIM__Bob__DELIM__1700000100__DELIM__fix!: patch Y__BODY__details\<newline>__FILES__\<newline>src/y.ts\<newline>README.md''"

definition commit_X :: Commit where
  "commit_X =
     \<lparr>type = Feat, breaking = False, commitHashAbbr = ''a1b2c3d'', authorName = ''Ann'',
      authorDate = Some 1700000000000, subject = ''feat: add X'', files = [''src/x.ts'']\<rparr>"

definition commit_Y :: Commit where
  "commit_Y =
     \<lparr>type = Fix, breaking = True, commitHashAbbr = ''e4f5a6b'', authorName = ''Bob'',
      authorDate = Some 1700000100000, subject = ''fix!: patch Y'',
      files = [''src/y.ts'', ''README.md'']\<rparr>"

text \<open>A record with an unrecognised type, after a good one.\<close>

definition oops_record :: string where
  "oops_record =
     ''e4f5a6b__DELIM__Bob__DELIM__1700000100__DELIM__oops: did a thing__BODY____FILES__\<newline>src/y.ts''"

definition oops_log :: string where
  "oops_log =
     ''__BEGIN__a1b2c3d__DELIM__Ann__DELIM__1700000000__DELIM__feat: add X__BODY____FILES__\<newline>src/x.ts\<newline>\<newline>__BEGIN__''
       @ oops_record"

text \<open>A header of three fields, and one of five.\<close>

definition three_field_record :: string where
  "three_field_record = ''a1b2c3d__DELIM__Ann__DELIM__feat: add X__BODY____FILES__\<newline>src/x.ts''"

definition five_field_record :: string where
  "five_field_record =
     ''a1b2c3d__DELIM__Ann__DELIM__1700000000__DELIM__feat: add X__DELIM__more__BODY____FILES__\<newline>src/x.ts''"

text \<open>A record whose text ends at the files marker.\<close>

definition no_files_record :: string where
  "no_files_record = ''a1b2c3d__DELIM__Ann__DELIM__1700000000__DELIM__feat: add X__BODY____FILES__''"

text \<open>The entries of the example log.\<close>

definition entry_X :: log_entry where
  "entry_X =
     \<lparr>entry_hash = ''a1b2c3d'', entry_author = ''Ann'', entry_date = ''1700000000'',
      entry_subject = ''feat: add X'', entry_body = [],
      entry_files = ''\<newline>src/x.ts\<newline>\<newline>''\<rparr>"

definition entry_Y :: log_entry where
  "entry_Y =
     \<lparr>entry_hash = ''e4f5a6b'', entry_author = ''Bob'', entry_date = ''1700000100'',
      entry_subject = ''fix!: patch Y'', entry_body = ''details\<newline>'',
      entry_files = ''\<newline>src/y.ts\<newline>README.md''\<rparr>"

text \<open>The five-field record cut to its first four fields.\<close>

definition four_field_record :: string where
  "four_field_record =
     ''a1b2c3d__DELIM__Ann__DELIM__1700000000__DELIM__feat: add X__BODY____FILES__\<newline>src/x.ts''"

text \<open>
  An entry with an empty body and an empty file list, and the log of the first example
  entry followed by it.
\<close>

definition entry_no_files :: log_entry where
  "entry_no_files =
     \<lparr>entry_hash = ''e4f5a6b'', entry_author = ''Bob'', entry_date = ''1700000100'',
      entry_subject = ''fix: patch Y'', entry_body = [], entry_files = []\<rparr>"

definition no_files_last_log :: string where
  "no_files_last_log =
     ''__BEGIN__a1b2c3d__DELIM__Ann__DELIM__1700000000__DELIM__feat: add X__BODY____FILES__\<newline>src/x.ts\<newline>\<newline>__BEGIN__e4f5a6b__DELIM__Bob__DELIM__1700000100__DELIM__fix: patch Y__BODY____FILES__''"

text \<open>The first record of the example log.\<close>

definition record_X :: string where
  "record_X =
     ''a1b2c3d__DELIM__Ann__DELIM__1700000000__DELIM__feat: add X__BODY____FILES__\<newline>src/x.ts\<newline>\<newline>''"

text \<open>The second record of the example log.\<close>

definition record_Y :: string where
  "record_Y =
     ''e4f5a6b__DELIM__Bob__DELIM__1700000100__DELIM__fix!: patch Y__BODY__details\<newline>__FILES__\<newline>src/y.ts\<newline>README.md''"

text \<open>A log with a \<open>fix\<close> commit before a \<open>feat\<close> commit.\<close>

definition fix_first_log :: string where
  "fix_first_log =
     ''__BEGIN__e4f5a6b__DELIM__Bob__DELIM__1700000100__DELIM__fix: patch Y__BODY____FILES__\<newline>src/y.ts\<newline>\<newline>__BEGIN__a1b2c3d__DELIM__Ann__DELIM__1700000000__DELIM__feat: add X__BODY____FILES__\<newline>src/x.ts''"

definition commit_fix_Y :: Commit where
  "commit_fix_Y =
     \<lparr>type = Fix, breaking = False, commitHashAbbr = ''e4f5a6b'', authorName = ''Bob'',
      authorDate = Some 1700000100000, subject = ''fix: patch Y'', files = [''src/y.ts'']\<rparr>"

text \<open>A dry run and a release of version 1.0.1.\<close>

definition dry_params :: GenerateChangelogParams where
  "dry_params =
     \<lparr>param_from = ''1.0.0'', param_to = ''1.0.1'', param_owner = ''virtuallyunknown'',
      param_repo = ''nx-monorepo'', dryRun = True\<rparr>"

definition release_params :: GenerateChangelogParams where
  "release_params = dry_params\<lparr>dryRun := False\<rparr>"

text \<open>A process that prints the example log, and an environment without the token.\<close>

definition example_env :: env where
  "example_env =
     \<lparr>execa = (\<lambda>command args. Inr example_log),
      GITHUB_TOKEN = None,
      axios = (\<lambda>request. Inl (Rejected ''offline''))\<rparr>"

definition example_release :: CreateGitHubReleaseParams where
  "example_release =
     \<lparr>tag = ''1.0.1'', release_body = ''notes'', commitHash = ''a1b2c3d'',
      repo = ''nx-monorepo'', owner = ''virtuallyunknown''\<rparr>"

section \<open>Properties of the parser\<close>

subsection \<open>Splitting\<close>

lemma find_sep_None: "sep \<noteq> [] \<Longrightarrow> find_sep sep s = None \<longleftrightarrow> \<not> sublist sep s"
proof (induction s)
  case Nil
  then show ?case by simp
next
  case (Cons c cs)
  then show ?case
    by (auto simp: sublist_Cons_right)
qed

lemma split_no_sep: "sep \<noteq> [] \<Longrightarrow> \<not> sublist sep s \<Longrightarrow> split sep s = [s]"
  using find_sep_None [of sep s] by (simp add: split.simps)

text \<open>
  Claim C10. A log that does not contain the begin marker, the empty log among them, is
  parsed without error into no commit groups and no contributors.
\<close>

theorem parseCommits_without_begin_marker:
  "\<not> sublist marker_begin output \<Longrightarrow> parseCommits output = Inr ([], [])"
proof -
  assume "\<not> sublist marker_begin output"
  moreover have "marker_begin \<noteq> []" by (simp add: marker_begin_def)
  ultimately have "split marker_begin output = [output]"
    by (rule split_no_sep [rotated])
  then show ?thesis
    by (simp add: parseCommits_def records_def)
qed

theorem parseCommits_without_begin_marker_witness:
  "\<not> sublist marker_begin [] \<and> parseCommits [] = Inr ([], [])
   \<and> \<not> sublist marker_begin ''no commits'' \<and> parseCommits ''no commits'' = Inr ([], [])"
proof -
  have h1: "\<not> sublist marker_begin []" by (simp add: marker_begin_def)
  have h2: "\<not> sublist marker_begin ''no commits''"
    by (simp add: marker_begin_def sublist_Cons_right)
  show ?thesis
    using h1 h2 parseCommits_without_begin_marker [OF h1] parseCommits_without_begin_marker [OF h2]
    by simp
qed

subsection \<open>Failure of one record is failure of the whole\<close>

lemma reduce_commits_failure:
  "cur \<in> set segs \<Longrightarrow> parse_record cur = Inl e \<Longrightarrow> \<exists>e'. reduce_commits st segs = Inl e'"
proof (induction segs arbitrary: st)
  case Nil
  then show ?case by simp
next
  case (Cons x xs)
  obtain acc contributors where st: "st = (acc, contributors)"
    by (cases st)
  show ?case
  proof (cases "parse_record x")
    case (Inl e0)
    with st show ?thesis by simp
  next
    case (Inr commit)
    with Cons.prems have "cur \<in> set xs" by auto
    from Cons.IH [OF this Cons.prems(2)] Inr st show ?thesis by simp
  qed
qed

lemma nth_opt_3: "nth_opt xs 3 = Some s \<Longrightarrow> \<exists>a b c r. xs = a # b # c # s # r"
proof -
  assume "nth_opt xs 3 = Some s"
  then have h: "nth_opt xs (Suc (Suc (Suc 0))) = Some s" by (simp add: numeral_3_eq_3)
  then obtain a xs1 where 1: "xs = a # xs1" by (cases xs) auto
  with h have h1: "nth_opt xs1 (Suc (Suc 0)) = Some s" by simp
  then obtain b xs2 where 2: "xs1 = b # xs2" by (cases xs1) auto
  with h1 have h2: "nth_opt xs2 (Suc 0) = Some s" by simp
  then obtain c xs3 where 3: "xs2 = c # xs3" by (cases xs2) auto
  with h2 have h3: "nth_opt xs3 0 = Some s" by simp
  then have "\<exists>r. xs3 = s # r" by (cases xs3) auto
  with 1 2 3 show ?thesis by simp
qed

lemma prefix_then_drop:
  "prefix t s \<Longrightarrow> prefix r (drop (length t) s) \<Longrightarrow> prefix (t @ r) s"
  by (auto simp: prefix_def)

lemma match_type_Some:
  "match_type ts s = Some (n, b) \<Longrightarrow>
     \<exists>t \<in> set ts. n = type_name t
       \<and> ((b = ''!'' \<and> prefix (type_name t @ ''!:'') s) \<or> (b = [] \<and> prefix (type_name t @ '':'') s))"
proof (induction ts)
  case Nil
  then show ?case by simp
next
  case (Cons t ts)
  show ?case
  proof (cases "prefix (type_name t) s")
    case False
    with Cons show ?thesis by auto
  next
    case True
    let ?r = "drop (length (type_name t)) s"
    consider (bang) "prefix ''!:'' ?r" | (colon) "\<not> prefix ''!:'' ?r" "prefix '':'' ?r"
      | (none) "\<not> prefix ''!:'' ?r" "\<not> prefix '':'' ?r"
      by blast
    then show ?thesis
    proof cases
      case bang
      with True Cons.prems have "n = type_name t" "b = ''!''" by (simp_all add: Let_def)
      moreover from True bang have "prefix (type_name t @ ''!:'') s" by (rule prefix_then_drop)
      ultimately show ?thesis by simp
    next
      case colon
      with True Cons.prems have "n = type_name t" "b = []" by (simp_all add: Let_def)
      moreover from True colon(2) have "prefix (type_name t @ '':'') s" by (rule prefix_then_drop)
      ultimately show ?thesis by simp
    next
      case none
      with True Cons.prems have "match_type ts s = Some (n, b)" by (simp add: Let_def)
      from Cons.IH [OF this] show ?thesis by auto
    qed
  qed
qed

lemma unrecognised_no_match:
  "\<not> recognised_prefix s \<Longrightarrow> match_type commitTypes s = None"
proof (rule ccontr)
  assume un: "\<not> recognised_prefix s" and "match_type commitTypes s \<noteq> None"
  then obtain n b where "match_type commitTypes s = Some (n, b)" by auto
  from match_type_Some [OF this] have "recognised_prefix s"
    unfolding recognised_prefix_def list_ex_iff by blast
  with un show False by simp
qed

lemma getCommitDetail_unrecognised:
  "\<not> recognised_prefix s \<Longrightarrow> getCommitDetail s b = Inl (Error (commit_type_message None))"
  by (simp add: getCommitDetail_def unrecognised_no_match assertCommitType_def)

lemma parse_record_unrecognised:
  assumes "\<forall>subj. record_subject cur = Some subj \<longrightarrow> \<not> recognised_prefix subj"
  shows "\<exists>e. parse_record cur = Inl e"
proof (cases "match_record cur")
  case None
  then show ?thesis by (simp add: parse_record_def)
next
  case (Some m)
  obtain header bdy fs where m: "m = (header, bdy, fs)" by (cases m)
  show ?thesis
  proof (cases "nth_opt (split marker_delim header) 3")
    case None
    have "\<And>a b c d r. split marker_delim header \<noteq> a # b # c # d # r"
      using None by (auto simp: numeral_3_eq_3)
    then show ?thesis
      using Some m
      by (auto simp: parse_record_def split: option.splits list.splits)
  next
    case (Some subj)
    from nth_opt_3 [OF Some] obtain a b c r where f: "split marker_delim header = a # b # c # subj # r"
      by blast
    from Some \<open>match_record cur = Some m\<close> m have "record_subject cur = Some subj"
      by (simp add: record_subject_def header_fields_def)
    with assms have "\<not> recognised_prefix subj" by simp
    then show ?thesis
      using \<open>match_record cur = Some m\<close> m f
      by (auto simp: parse_record_def getCommitDetail_unrecognised split: option.splits)
  qed
qed

text \<open>
  Claim C2. When the subject of some record of the log does not begin with one of the
  eleven type names followed by an optional \<open>!\<close> and a colon (or the record has no
  subject at all), \<open>parseCommits\<close> ends with an error: the result holds no commits, the
  other records included.
\<close>

theorem unrecognised_type_fails:
  assumes "cur \<in> set (records output)"
    and "\<forall>subj. record_subject cur = Some subj \<longrightarrow> \<not> recognised_prefix subj"
  shows "\<exists>e. parseCommits output = Inl e"
proof -
  from parse_record_unrecognised [OF assms(2)] obtain e where "parse_record cur = Inl e" ..
  from reduce_commits_failure [OF assms(1) this] show ?thesis
    by (simp add: parseCommits_def)
qed

theorem unrecognised_type_fails_witness:
  "oops_record \<in> set (records oops_log)
   \<and> record_subject oops_record = Some ''oops: did a thing''
   \<and> \<not> recognised_prefix ''oops: did a thing''
   \<and> (\<exists>e. parseCommits oops_log = Inl e)"
proof -
  have h1: "oops_record \<in> set (records oops_log)"
    by code_simp
  have s: "record_subject oops_record = Some ''oops: did a thing''"
    by code_simp
  have u: "\<not> recognised_prefix ''oops: did a thing''"
    by code_simp
  from s u have h2: "\<forall>subj. record_subject oops_record = Some subj \<longrightarrow> \<not> recognised_prefix subj"
    by simp
  from h1 s u unrecognised_type_fails [OF h1 h2] show ?thesis by simp
qed

lemma short_header_error:
  assumes "cur \<in> set (records output)"
    and "\<forall>parts. header_fields cur = Some parts \<longrightarrow> length parts < 4"
  shows "\<exists>e. parseCommits output = Inl e"
proof -
  have "\<exists>e. parse_record cur = Inl e"
  proof (cases "match_record cur")
    case None
    then show ?thesis by (simp add: parse_record_def)
  next
    case (Some m)
    obtain header bdy fs where m: "m = (header, bdy, fs)" by (cases m)
    with Some assms(2) have "length (split marker_delim header) < 4"
      by (simp add: header_fields_def)
    then have "\<And>a b c d r. split marker_delim header \<noteq> a # b # c # d # r"
      by auto
    then show ?thesis
      using Some m
      by (auto simp: parse_record_def split: option.splits list.splits)
  qed
  then obtain e where "parse_record cur = Inl e" ..
  from reduce_commits_failure [OF assms(1) this] show ?thesis
    by (simp add: parseCommits_def)
qed

lemma first_four_case:
  "(case xs of a # b # c # d # r \<Rightarrow> F a b c d | _ \<Rightarrow> E)
     = (case take 4 xs of [a, b, c, d] \<Rightarrow> F a b c d | _ \<Rightarrow> E)"
  by (auto split: list.splits simp: take_Suc_conv_app_nth numeral_eq_Suc)

lemma parse_record_first_four:
  assumes "same_first_four cur cur'"
  shows "parse_record cur = parse_record cur'"
proof (cases "match_record cur")
  case None
  with assms show ?thesis
    by (simp add: same_first_four_def parse_record_def)
next
  case (Some m)
  obtain header bdy fs where m: "m = (header, bdy, fs)" by (cases m)
  with Some assms obtain header' where m': "match_record cur' = Some (header', bdy, fs)"
    and t: "take 4 (split marker_delim header) = take 4 (split marker_delim header')"
    by (auto simp: same_first_four_def split: option.splits)
  show ?thesis
    using Some m m' t
    by (simp add: parse_record_def first_four_case split: option.splits)
qed

lemma reduce_commits_first_four:
  "list_all2 same_first_four xs ys \<Longrightarrow> reduce_commits st xs = reduce_commits st ys"
proof (induction xs ys arbitrary: st rule: list_all2_induct)
  case Nil
  then show ?case by simp
next
  case (Cons x xs y ys)
  obtain acc contributors where st: "st = (acc, contributors)" by (cases st)
  from Cons.hyps(1) have "parse_record x = parse_record y"
    by (rule parse_record_first_four)
  with Cons.IH st show ?case
    by (simp split: sum.splits)
qed

text \<open>
  Claim C3, as the code has it. When the header of some record of the log splits on the
  delimiter into fewer than four fields (or the record pattern does not match),
  \<open>parseCommits\<close> ends with an error. Only the first four fields of a header are read:
  two logs whose records agree pairwise in the body group, the files group and the first
  four header fields have the same result, so that a header of more than four fields is
  no error in itself.
\<close>

theorem first_four_fields_read:
  "(cur \<in> set (records output)
      \<and> (\<forall>parts. header_fields cur = Some parts \<longrightarrow> length parts < 4)
      \<longrightarrow> (\<exists>e. parseCommits output = Inl e))
   \<and> (list_all2 same_first_four (records output) (records output')
      \<longrightarrow> parseCommits output = parseCommits output')"
proof (intro conjI impI)
  assume "cur \<in> set (records output)
          \<and> (\<forall>parts. header_fields cur = Some parts \<longrightarrow> length parts < 4)"
  then show "\<exists>e. parseCommits output = Inl e"
    using short_header_error by blast
next
  assume "list_all2 same_first_four (records output) (records output')"
  then have "reduce_commits ([], []) (records output) = reduce_commits ([], []) (records output')"
    by (rule reduce_commits_first_four)
  then show "parseCommits output = parseCommits output'"
    by (simp add: parseCommits_def)
qed

theorem first_four_fields_read_witness:
  "three_field_record \<in> set (records (marker_begin @ three_field_record))
   \<and> header_fields three_field_record = Some [''a1b2c3d'', ''Ann'', ''feat: add X'']
   \<and> (\<exists>e. parseCommits (marker_begin @ three_field_record) = Inl e)
   \<and> list_all2 same_first_four (records (marker_begin @ five_field_record))
        (records (marker_begin @ four_field_record))
   \<and> parseCommits (marker_begin @ five_field_record)
       = parseCommits (marker_begin @ four_field_record)"
proof -
  have h1: "three_field_record \<in> set (records (marker_begin @ three_field_record))"
    by code_simp
  have f: "header_fields three_field_record = Some [''a1b2c3d'', ''Ann'', ''feat: add X'']"
    by code_simp
  then have h2: "\<forall>parts. header_fields three_field_record = Some parts \<longrightarrow> length parts < 4"
    by simp
  have h3: "list_all2 same_first_four (records (marker_begin @ five_field_record))
              (records (marker_begin @ four_field_record))"
    by code_simp
  from h1 f h2 h3
    first_four_fields_read
      [of three_field_record "marker_begin @ three_field_record" "marker_begin @ three_field_record"]
    first_four_fields_read
      [of three_field_record "marker_begin @ five_field_record" "marker_begin @ four_field_record"]
  show ?thesis
    by blast
qed

text \<open>
  Claim C3 as stated fails: the header below has five fields, and the log is parsed into
  a commit made of the first four.
\<close>

theorem five_fields_accepted:
  "records (marker_begin @ five_field_record) = [five_field_record]
   \<and> header_fields five_field_record
       = Some [''a1b2c3d'', ''Ann'', ''1700000000'', ''feat: add X'', ''more'']
   \<and> parseCommits (marker_begin @ five_field_record) = Inr ([(Type Feat, [commit_X])], [''Ann''])"
  by code_simp

text \<open>
  Claim C4 fails on the code: in a record whose text ends at the files marker the files
  group of the pattern is undefined, as is the body group, and \<open>files.split\<close> throws, where
  the claim has a commit with an empty file list.
\<close>

theorem absent_files_throws:
  "match_record no_files_record
     = Some (''a1b2c3d__DELIM__Ann__DELIM__1700000000__DELIM__feat: add X'', None, None)
   \<and> parseCommits (marker_begin @ no_files_record) = Inl TypeError"
  by code_simp

subsection \<open>Accepted records\<close>

lemma parse_record_Inr:
  assumes "parse_record cur = Inr commit"
  shows "\<exists>header bdy fls a b c r d.
           match_record cur = Some (header, bdy, Some fls)
           \<and> split marker_delim header = a # b # c # subject commit # r
           \<and> getCommitDetail (subject commit) bdy = Inr d
           \<and> breaking commit = breaking d \<and> type commit = type d
           \<and> commitHashAbbr commit = a \<and> authorName commit = b"
  using assms
  by (auto simp: parse_record_def split: option.splits list.splits sum.splits)

lemma recognised_match:
  assumes "prefix (type_name t @ '':'') s \<or> prefix (type_name t @ ''!:'') s"
  shows "\<exists>flag. match_type commitTypes s = Some (type_name t, flag)"
proof -
  from assms consider zs where "s = type_name t @ '':'' @ zs"
    | zs where "s = type_name t @ ''!:'' @ zs"
    by (auto simp: prefix_def)
  then show ?thesis
    by cases (cases t; simp add: commitTypes_def)+
qed

lemma assertCommitType_name: "assertCommitType (Some (type_name t)) = Inr t"
  by (cases t) (simp_all add: assertCommitType_def commitTypes_def)

lemma getCommitDetail_recognised:
  assumes "recognised_prefix s"
  shows "\<exists>d. getCommitDetail s b = Inr d"
proof -
  from assms obtain t where
    "prefix (type_name t @ '':'') s \<or> prefix (type_name t @ ''!:'') s"
    unfolding recognised_prefix_def list_ex_iff by blast
  from recognised_match [OF this] obtain flag
    where "match_type commitTypes s = Some (type_name t, flag)" ..
  then show ?thesis
    by (simp add: getCommitDetail_def assertCommitType_name)
qed

text \<open>The accepted records are those the reducer makes a commit of.\<close>

lemma accepted_record_parsed:
  "accepted_record cur \<longleftrightarrow> (\<exists>commit. parse_record cur = Inr commit)"
proof
  assume wf: "accepted_record cur"
  then obtain header bdy fls where m: "match_record cur = Some (header, bdy, Some fls)"
    by (auto simp: accepted_record_def split: option.splits)
  with wf obtain a b c subj r where f: "split marker_delim header = a # b # c # subj # r"
    and rec: "recognised_prefix subj"
    by (auto simp: accepted_record_def split: list.splits)
  from getCommitDetail_recognised [OF rec] obtain d where "getCommitDetail subj bdy = Inr d" ..
  with m f show "\<exists>commit. parse_record cur = Inr commit"
    by (simp add: parse_record_def)
next
  assume "\<exists>commit. parse_record cur = Inr commit"
  then obtain commit where p: "parse_record cur = Inr commit" ..
  from parse_record_Inr [OF p] obtain header bdy fls a b c r d where
    m: "match_record cur = Some (header, bdy, Some fls)"
    and f: "split marker_delim header = a # b # c # subject commit # r"
    and d: "getCommitDetail (subject commit) bdy = Inr d"
    by blast
  have "recognised_prefix (subject commit)"
  proof (rule ccontr)
    assume "\<not> recognised_prefix (subject commit)"
    from getCommitDetail_unrecognised [OF this] d show False by simp
  qed
  with m f show "accepted_record cur"
    by (simp add: accepted_record_def)
qed

subsection \<open>Encoded entries that are accepted\<close>

lemma plain_not_prefix: "plain f \<Longrightarrow> CHR ''_'' \<in> set p \<Longrightarrow> \<not> prefix p f"
  using set_mono_prefix [of p f] by (auto simp: plain_def)

lemma plain_head: "plain f \<Longrightarrow> f \<noteq> [] \<Longrightarrow> \<not> prefix (CHR ''_'' # m) (f @ r)"
  by (cases f) (auto simp: plain_def)

lemma find_sep_self: "M \<noteq> [] \<Longrightarrow> find_sep M (M @ r) = Some ([], r)"
  by (cases M) simp_all

lemma find_sep_plain:
  "plain f \<Longrightarrow> find_sep (CHR ''_'' # m) (f @ r)
     = map_option (\<lambda>(b, a). (f @ b, a)) (find_sep (CHR ''_'' # m) r)"
proof (induction f)
  case Nil
  show ?case by (cases "find_sep (CHR ''_'' # m) r") auto
next
  case (Cons c f)
  then have "plain f" and "c \<noteq> CHR ''_''" by (auto simp: plain_def)
  with Cons.IH show ?case
    by (cases "find_sep (CHR ''_'' # m) r") auto
qed

lemma word_not_prefix:
  assumes "plain f" and "plain w" and "f \<noteq> w" and "tail_ok r"
  shows "\<not> prefix (w @ ''__'') (f @ r)"
  using assms
proof (induction w arbitrary: f)
  case Nil
  then obtain c f' where "f = c # f'" "c \<noteq> CHR ''_''"
    by (cases f) (auto simp: plain_def)
  then show ?case by simp
next
  case (Cons x w)
  show ?case
  proof (cases f)
    case Nil
    with Cons.prems show ?thesis
      by (auto simp: tail_ok_def plain_def prefix_def)
  next
    case (Cons c f')
    with Cons.prems have "plain f'" "plain w" "c = x \<longrightarrow> f' \<noteq> w"
      by (auto simp: plain_def)
    with Cons.IH [of f'] Cons.prems(4) Cons show ?thesis
      by auto
  qed
qed

lemma under_not_prefix:
  assumes "plain f" and "tail_ok r" and "x \<noteq> CHR ''_''"
  shows "\<not> prefix (CHR ''_'' # x # w) (f @ r)"
proof (cases f)
  case Nil
  with assms show ?thesis
    by (auto simp: tail_ok_def prefix_def)
next
  case (Cons c f')
  with assms(1) show ?thesis by (auto simp: plain_def)
qed

lemma skip_begin_delim:
  assumes "plain f" and "f \<noteq> ''BEGIN''" and "tail_ok r"
  shows "find_sep marker_begin (marker_delim @ f @ r)
           = map_option (\<lambda>(b, a). (marker_delim @ b, a)) (find_sep marker_begin (f @ r))"
proof -
  have a: "\<not> prefix ''BEGIN__'' (f @ r)"
    using word_not_prefix [OF assms(1) _ assms(2,3)] by (simp add: plain_def)
  have b: "\<not> prefix ''_BEGIN__'' (f @ r)"
    using under_not_prefix [OF assms(1,3)] by simp
  show ?thesis
    unfolding marker_begin_def marker_delim_def
    by (cases "find_sep ''__BEGIN__'' (f @ r)") (auto simp: a b)
qed

lemma skip_begin_body:
  assumes "plain f" and "f \<noteq> ''BEGIN''" and "tail_ok r"
  shows "find_sep marker_begin (marker_body @ f @ r)
           = map_option (\<lambda>(b, a). (marker_body @ b, a)) (find_sep marker_begin (f @ r))"
proof -
  have a: "\<not> prefix ''BEGIN__'' (f @ r)"
    using word_not_prefix [OF assms(1) _ assms(2,3)] by (simp add: plain_def)
  have b: "\<not> prefix ''_BEGIN__'' (f @ r)"
    using under_not_prefix [OF assms(1,3)] by simp
  show ?thesis
    unfolding marker_begin_def marker_body_def
    by (cases "find_sep ''__BEGIN__'' (f @ r)") (auto simp: a b)
qed

lemma skip_begin_files:
  assumes "plain f" and "f \<noteq> ''BEGIN''" and "tail_ok r"
  shows "find_sep marker_begin (marker_files @ f @ r)
           = map_option (\<lambda>(b, a). (marker_files @ b, a)) (find_sep marker_begin (f @ r))"
proof -
  have a: "\<not> prefix ''BEGIN__'' (f @ r)"
    using word_not_prefix [OF assms(1) _ assms(2,3)] by (simp add: plain_def)
  have b: "\<not> prefix ''_BEGIN__'' (f @ r)"
    using under_not_prefix [OF assms(1,3)] by simp
  show ?thesis
    unfolding marker_begin_def marker_files_def
    by (cases "find_sep ''__BEGIN__'' (f @ r)") (auto simp: a b)
qed

lemma skip_body_tail:
  assumes "plain f" and "f \<noteq> ''BODY''" and "tail_ok r"
  shows "find_sep marker_body (''_BODY__'' @ f @ r)
           = map_option (\<lambda>(b, a). (''_BODY__'' @ b, a)) (find_sep marker_body (f @ r))"
proof -
  have a: "\<not> prefix ''BODY__'' (f @ r)"
    using word_not_prefix [OF assms(1) _ assms(2,3)] by (simp add: plain_def)
  have b: "\<not> prefix ''_BODY__'' (f @ r)"
    using under_not_prefix [OF assms(1,3)] by simp
  show ?thesis
    unfolding marker_body_def
    by (cases "find_sep ''__BODY__'' (f @ r)") (auto simp: a b)
qed

lemma skip_files_tail:
  assumes "plain f"
  shows "find_sep marker_files (''_FILES__'' @ f) = None"
proof -
  have a: "\<not> prefix ''FILES__'' f" and b: "\<not> prefix ''_FILES__'' f"
    using plain_not_prefix [OF assms] by simp_all
  have "find_sep ''__FILES__'' f = None"
    using find_sep_plain [OF assms, of "''_FILES__''" "[]"] by simp
  then show ?thesis
    unfolding marker_files_def by (simp add: a b)
qed

lemma skips_append: "skips M x (y @ r) \<Longrightarrow> skips M y r \<Longrightarrow> skips M (x @ y) r"
  by (cases "find_sep M r") (auto simp: skips_def)

lemma skips_plain_begin: "plain f \<Longrightarrow> skips marker_begin f r"
  unfolding skips_def marker_begin_def using find_sep_plain [of f "''_BEGIN__''" r] by simp

lemma skips_plain_body: "plain f \<Longrightarrow> skips marker_body f r"
  unfolding skips_def marker_body_def using find_sep_plain [of f "''_BODY__''" r] by simp

lemma skips_plain_delim: "plain f \<Longrightarrow> skips marker_delim f r"
  unfolding skips_def marker_delim_def using find_sep_plain [of f "''_DELIM__''" r] by simp

lemma tail_ok_markers [simp]:
  "tail_ok (marker_begin @ r)" "tail_ok (marker_delim @ r)"
  "tail_ok (marker_body @ r)" "tail_ok (marker_files @ r)" "tail_ok []"
  by (simp_all add: tail_ok_def marker_begin_def marker_delim_def marker_body_def marker_files_def)

lemma skips_delim_begin:
  "plain f \<Longrightarrow> f \<noteq> ''BEGIN'' \<Longrightarrow> tail_ok r \<Longrightarrow> skips marker_begin (marker_delim @ f) r"
  using skip_begin_delim [of f r] skips_plain_begin [of f r]
  by (cases "find_sep marker_begin r") (auto simp: skips_def)

lemma skips_body_begin:
  "plain f \<Longrightarrow> f \<noteq> ''BEGIN'' \<Longrightarrow> tail_ok r \<Longrightarrow> skips marker_begin (marker_body @ f) r"
  using skip_begin_body [of f r] skips_plain_begin [of f r]
  by (cases "find_sep marker_begin r") (auto simp: skips_def)

lemma skips_files_begin:
  "plain f \<Longrightarrow> f \<noteq> ''BEGIN'' \<Longrightarrow> tail_ok r \<Longrightarrow> skips marker_begin (marker_files @ f) r"
  using skip_begin_files [of f r] skips_plain_begin [of f r]
  by (cases "find_sep marker_begin r") (auto simp: skips_def)

lemma not_recognised_BEGIN: "\<not> recognised_prefix ''BEGIN''"
  by code_simp

lemma record_layout:
  "encode_record e
     = entry_hash e @ (marker_delim @ entry_author e) @ (marker_delim @ entry_date e)
       @ (marker_delim @ entry_subject e) @ (marker_body @ entry_body e)
       @ (marker_files @ entry_files e)"
  by (simp add: encode_record_def encode_header_def)

lemma skips_record:
  assumes "accepted_entry e" and "tail_ok r"
  shows "skips marker_begin (encode_record e) r"
proof -
  from assms(1) have subj: "entry_subject e \<noteq> ''BEGIN''"
    using not_recognised_BEGIN by (auto simp: accepted_entry_def)
  have 5: "skips marker_begin (marker_files @ entry_files e) r"
    using assms by (intro skips_files_begin) (simp_all add: accepted_entry_def)
  have 4: "skips marker_begin (marker_body @ entry_body e) ((marker_files @ entry_files e) @ r)"
    using assms by (intro skips_body_begin) (simp_all add: accepted_entry_def)
  have 3: "skips marker_begin (marker_delim @ entry_subject e)
             (((marker_body @ entry_body e) @ (marker_files @ entry_files e)) @ r)"
    using assms subj by (intro skips_delim_begin) (simp_all add: accepted_entry_def)
  have 2: "skips marker_begin (marker_delim @ entry_date e)
             (((marker_delim @ entry_subject e) @ (marker_body @ entry_body e)
                 @ (marker_files @ entry_files e)) @ r)"
    using assms by (intro skips_delim_begin) (simp_all add: accepted_entry_def)
  have 1: "skips marker_begin (marker_delim @ entry_author e)
             (((marker_delim @ entry_date e) @ (marker_delim @ entry_subject e)
                 @ (marker_body @ entry_body e) @ (marker_files @ entry_files e)) @ r)"
    using assms by (intro skips_delim_begin) (simp_all add: accepted_entry_def)
  have 0: "skips marker_begin (entry_hash e)
             (((marker_delim @ entry_author e) @ (marker_delim @ entry_date e)
                 @ (marker_delim @ entry_subject e) @ (marker_body @ entry_body e)
                 @ (marker_files @ entry_files e)) @ r)"
    using assms by (intro skips_plain_begin) (simp_all add: accepted_entry_def)
  have 45: "skips marker_begin ((marker_body @ entry_body e) @ (marker_files @ entry_files e)) r"
    using 4 5 by (rule skips_append)
  have 345: "skips marker_begin
               ((marker_delim @ entry_subject e) @ (marker_body @ entry_body e)
                 @ (marker_files @ entry_files e)) r"
    using 3 45 by (rule skips_append)
  have 2345: "skips marker_begin
               ((marker_delim @ entry_date e) @ (marker_delim @ entry_subject e)
                 @ (marker_body @ entry_body e) @ (marker_files @ entry_files e)) r"
    using 2 345 by (rule skips_append)
  have 12345: "skips marker_begin
               ((marker_delim @ entry_author e) @ (marker_delim @ entry_date e)
                 @ (marker_delim @ entry_subject e) @ (marker_body @ entry_body e)
                 @ (marker_files @ entry_files e)) r"
    using 1 2345 by (rule skips_append)
  have "skips marker_begin
               (entry_hash e @ (marker_delim @ entry_author e) @ (marker_delim @ entry_date e)
                 @ (marker_delim @ entry_subject e) @ (marker_body @ entry_body e)
                 @ (marker_files @ entry_files e)) r"
    using 0 12345 by (rule skips_append)
  then show ?thesis
    by (simp only: record_layout)
qed

lemma tail_ok_log [simp]: "tail_ok (encode_log es)"
  by (cases es) (simp_all add: encode_log_def)

lemma split_records:
  "\<forall>e \<in> set (e0 # es). accepted_entry e \<Longrightarrow>
     split marker_begin (encode_record e0 @ encode_log es) = map encode_record (e0 # es)"
proof (induction es arbitrary: e0)
  case Nil
  then have "skips marker_begin (encode_record e0) []" by (intro skips_record) simp_all
  then have "find_sep marker_begin (encode_record e0) = None"
    by (simp add: skips_def marker_begin_def)
  then show ?case
    by (simp add: split.simps encode_log_def marker_begin_def)
next
  case (Cons e1 es)
  let ?rest = "encode_record e1 @ encode_log es"
  have log: "encode_log (e1 # es) = marker_begin @ ?rest"
    by (simp add: encode_log_def)
  from Cons.prems have "skips marker_begin (encode_record e0) (marker_begin @ ?rest)"
    by (intro skips_record) simp_all
  moreover have "find_sep marker_begin (marker_begin @ ?rest) = Some ([], ?rest)"
    by (rule find_sep_self) (simp add: marker_begin_def)
  ultimately have "find_sep marker_begin (encode_record e0 @ encode_log (e1 # es))
                     = Some (encode_record e0, ?rest)"
    by (simp add: skips_def log)
  then have "split marker_begin (encode_record e0 @ encode_log (e1 # es))
               = encode_record e0 # split marker_begin ?rest"
    by (subst split.simps) (simp add: marker_begin_def)
  with Cons.IH [of e1] Cons.prems show ?case by simp
qed

lemma records_encode_log:
  assumes "\<forall>e \<in> set es. accepted_entry e"
  shows "records (encode_log es) = map encode_record es"
proof (cases es)
  case Nil
  then show ?thesis
    by (simp add: records_def encode_log_def split.simps marker_begin_def)
next
  case (Cons e0 es')
  have "find_sep marker_begin (marker_begin @ encode_record e0 @ encode_log es')
          = Some ([], encode_record e0 @ encode_log es')"
    by (rule find_sep_self) (simp add: marker_begin_def)
  then have "split marker_begin (encode_log es)
               = [] # split marker_begin (encode_record e0 @ encode_log es')"
    using Cons by (subst split.simps) (simp add: encode_log_def marker_begin_def)
  with split_records [of e0 es'] assms Cons show ?thesis
    by (simp add: records_def)
qed

lemma split_header:
  assumes "accepted_entry e"
  shows "split marker_delim (encode_header e)
           = [entry_hash e, entry_author e, entry_date e, entry_subject e]"
proof -
  have found: "find_sep marker_delim (f @ marker_delim @ r) = Some (f, r)" if "plain f" for f r
  proof -
    have "find_sep marker_delim (marker_delim @ r) = Some ([], r)"
      by (rule find_sep_self) (simp add: marker_delim_def)
    with skips_plain_delim [OF that, of "marker_delim @ r"] show ?thesis
      by (simp add: skips_def)
  qed
  have step: "split marker_delim (f @ marker_delim @ r) = f # split marker_delim r"
    if "plain f" for f r
    using found [OF that, of r] by (subst split.simps) (simp add: marker_delim_def)
  have last: "split marker_delim f = [f]" if "plain f" for f
  proof -
    from skips_plain_delim [OF that, of "[]"] have "find_sep marker_delim f = None"
      by (simp add: skips_def marker_delim_def)
    then show ?thesis
      by (subst split.simps) (simp add: marker_delim_def)
  qed
  from assms have "plain (entry_hash e)" "plain (entry_author e)" "plain (entry_date e)"
    "plain (entry_subject e)"
    by (simp_all add: accepted_entry_def)
  then show ?thesis
    by (simp add: encode_header_def step last)
qed

lemma match_here_none: "\<not> sublist marker_body s \<Longrightarrow> match_here s = None"
proof (induction s)
  case Nil
  then show ?case by (simp add: from_body_def marker_body_def)
next
  case (Cons c cs)
  then have "\<not> sublist marker_body cs" and "\<not> prefix marker_body (c # cs)"
    by (auto simp: sublist_Cons_right)
  with Cons.IH show ?case by (simp add: from_body_def)
qed

lemma body_chars_none: "\<not> sublist marker_files cs \<Longrightarrow> body_chars (c # cs) = None"
proof (induction cs arbitrary: c)
  case Nil
  then show ?case by (simp add: marker_files_def)
next
  case (Cons c' cs)
  then have "\<not> sublist marker_files cs" and "\<not> prefix marker_files (c' # cs)"
    by (auto simp: sublist_Cons_right)
  with Cons.IH [of c'] show ?case by simp
qed

lemma no_files_after:
  assumes "plain f"
  shows "\<not> sublist marker_files (''_FILES__'' @ f)"
  using skip_files_tail [OF assms] find_sep_None [of marker_files "''_FILES__'' @ f"]
  by (simp add: marker_files_def)

lemma body_chars_files:
  assumes "plain f"
  shows "body_chars (marker_files @ f) = None"
  using body_chars_none [OF no_files_after [OF assms], of "CHR ''_''"]
  by (simp add: marker_files_def)

lemma body_chars_body:
  assumes "plain f" and "b \<noteq> []"
  shows "body_chars (b @ marker_files @ f) = Some (b, f)"
  using assms(2)
proof (induction b rule: list_nonempty_induct)
  case (single c)
  then show ?case
    by (simp add: body_chars_files [OF assms(1)])
next
  case (cons c b)
  then show ?case by simp
qed

lemma after_body_entry:
  assumes "plain f" and "f \<noteq> []"
  shows "after_body (b @ marker_files @ f) = Some (if b = [] then None else Some b, Some f)"
proof (cases "b = []")
  case True
  with assms show ?thesis
    by (simp add: after_body_def body_chars_files files_group_def)
next
  case False
  with assms show ?thesis
    by (simp add: after_body_def body_chars_body files_group_def)
qed

lemma no_body_after:
  assumes "plain b" and "b \<noteq> ''BODY''" and "plain f"
  shows "\<not> sublist marker_body (''_BODY__'' @ b @ marker_files @ f)"
proof -
  have "\<not> prefix ''BODY__'' f" and "\<not> prefix ''_BODY__'' f"
    using plain_not_prefix [OF assms(3)] by simp_all
  moreover have "find_sep marker_body f = None"
    using skips_plain_body [OF assms(3), of "[]"] by (simp add: skips_def marker_body_def)
  ultimately have 1: "find_sep marker_body (marker_files @ f) = None"
    by (simp add: marker_body_def marker_files_def)
  have "find_sep marker_body (b @ marker_files @ f) = None"
    using skips_plain_body [OF assms(1), of "marker_files @ f"] 1 by (simp add: skips_def)
  moreover have "find_sep marker_body (''_BODY__'' @ b @ marker_files @ f)
       = map_option (\<lambda>(x, a). (''_BODY__'' @ x, a)) (find_sep marker_body (b @ marker_files @ f))"
    using assms(1,2) by (intro skip_body_tail) simp_all
  ultimately have "find_sep marker_body (''_BODY__'' @ b @ marker_files @ f) = None"
    by simp
  then show ?thesis
    using find_sep_None [of marker_body "''_BODY__'' @ b @ marker_files @ f"]
    by (simp add: marker_body_def)
qed

lemma match_here_header:
  "list_all (\<lambda>c. \<not> is_line_terminator c) h \<Longrightarrow> match_here s = Some (h0, b, f)
     \<Longrightarrow> match_here (h @ s) = Some (h @ h0, b, f)"
  by (induction h) simp_all

lemma match_here_body:
  assumes "plain b" and "b \<noteq> ''BODY''" and "plain f" and "f \<noteq> []"
  shows "match_here (marker_body @ b @ marker_files @ f)
           = Some ([], if b = [] then None else Some b, Some f)"
proof -
  have "match_here (''_BODY__'' @ b @ marker_files @ f) = None"
    using no_body_after [OF assms(1,2,3)] by (rule match_here_none)
  moreover have "from_body (marker_body @ b @ marker_files @ f)
                   = Some (if b = [] then None else Some b, Some f)"
    using after_body_entry [OF assms(3,4), of b] by (simp add: from_body_def)
  ultimately show ?thesis
    by (simp add: marker_body_def is_line_terminator_def)
qed

lemma match_record_here: "match_here s = Some r \<Longrightarrow> match_record s = Some r"
  by (cases s) simp_all

lemma match_record_entry:
  assumes "accepted_entry e"
  shows "match_record (encode_record e)
           = Some (encode_header e,
                   if entry_body e = [] then None else Some (entry_body e),
                   Some (entry_files e))"
proof -
  from assms have h: "list_all (\<lambda>c. \<not> is_line_terminator c) (encode_header e)"
    by (simp add: accepted_entry_def encode_header_def marker_delim_def
          is_line_terminator_def)
  from assms have "match_here (marker_body @ entry_body e @ marker_files @ entry_files e)
      = Some ([], if entry_body e = [] then None else Some (entry_body e), Some (entry_files e))"
    by (intro match_here_body) (simp_all add: accepted_entry_def)
  from match_here_header [OF h this] have
    "match_here (encode_record e)
       = Some (encode_header e,
               if entry_body e = [] then None else Some (entry_body e),
               Some (entry_files e))"
    by (simp add: encode_record_def)
  then show ?thesis by (rule match_record_here)
qed

lemma encoded_record_accepted:
  assumes "accepted_entry e"
  shows "accepted_record (encode_record e)"
  using assms
  by (simp add: accepted_record_def match_record_entry split_header accepted_entry_def)

text \<open>
  The encoding of N entries that meet the condition has N records, the entries in their
  encoding, and each of them is accepted.
\<close>

lemma encoded_log_accepted:
  assumes "\<forall>e \<in> set es. accepted_entry e"
  shows "records (encode_log es) = map encode_record es
         \<and> (\<forall>cur \<in> set (records (encode_log es)). accepted_record cur)"
  using assms by (simp add: records_encode_log encoded_record_accepted)

subsection \<open>Buckets\<close>

lemma map_of_obj_set:
  "map_of (obj_set k v kvs) k' = (if k' = k then Some v else map_of kvs k')"
  by (induction kvs) auto

lemma keys_obj_set: "set (map fst (obj_set k v kvs)) = insert k (set (map fst kvs))"
proof (induction kvs)
  case Nil
  then show ?case by simp
next
  case (Cons kv kvs)
  obtain k' v' where kv: "kv = (k', v')" by (cases kv)
  show ?case
  proof (cases "k' = k")
    case True
    with kv show ?thesis by simp
  next
    case False
    with kv have "set (map fst (obj_set k v (kv # kvs)))
                    = insert k' (set (map fst (obj_set k v kvs)))"
      by simp
    also have "\<dots> = insert k' (insert k (set (map fst kvs)))"
      using Cons.IH by simp
    finally show ?thesis using kv by auto
  qed
qed

lemma distinct_obj_set:
  "distinct (map fst kvs) \<Longrightarrow> distinct (map fst (obj_set k v kvs))"
proof (induction kvs)
  case Nil
  then show ?case by simp
next
  case (Cons kv kvs)
  obtain k' v' where kv: "kv = (k', v')" by (cases kv)
  show ?case
  proof (cases "k' = k")
    case True
    with Cons.prems kv show ?thesis by simp
  next
    case False
    from Cons.prems kv have "k' \<notin> set (map fst kvs)" "distinct (map fst kvs)" by simp_all
    with Cons.IH False kv show ?thesis
      using keys_obj_set [of k v kvs] by simp
  qed
qed

lemma bucket_add_commit:
  "bucket (add_commit acc commit) k
     = bucket acc k @ (if bucket_of commit = k then [commit] else [])"
  by (simp add: bucket_def add_commit_def map_of_obj_set Let_def)

lemma total_obj_set_append:
  "total_commits (obj_set k ((case map_of kvs k of None \<Rightarrow> [] | Some cs \<Rightarrow> cs) @ [c]) kvs)
     = Suc (total_commits kvs)"
  unfolding total_commits_def
  by (induction kvs) auto

lemma total_add_commit: "total_commits (add_commit acc commit) = Suc (total_commits acc)"
  by (simp add: add_commit_def Let_def total_obj_set_append)

lemma distinct_add_commit:
  "distinct (map fst acc) \<Longrightarrow> distinct (map fst (add_commit acc commit))"
  by (simp add: add_commit_def Let_def distinct_obj_set)

text \<open>The invariant of the reduction, from any accumulator.\<close>

lemma reduce_commits_invariant:
  assumes "map parse_record segs = map Inr commits"
  shows "\<exists>groups contributors'.
           reduce_commits (acc, contributors) segs = Inr (groups, contributors')
           \<and> (\<forall>k. bucket groups k = bucket acc k @ filter (\<lambda>c. bucket_of c = k) commits)
           \<and> total_commits groups = total_commits acc + length commits
           \<and> (distinct (map fst acc) \<longrightarrow> distinct (map fst groups))"
  using assms
proof (induction segs arbitrary: acc contributors commits)
  case Nil
  then show ?case by simp
next
  case (Cons cur segs)
  from Cons.prems obtain commit rest where commits: "commits = commit # rest"
    and cur: "parse_record cur = Inr commit" and rest: "map parse_record segs = map Inr rest"
    by (cases commits) auto
  from Cons.IH [OF rest, of "add_commit acc commit" "set_add (authorName commit) contributors"]
  obtain groups contributors' where
    r: "reduce_commits (add_commit acc commit, set_add (authorName commit) contributors) segs
          = Inr (groups, contributors')"
    and b: "\<forall>k. bucket groups k
              = bucket (add_commit acc commit) k @ filter (\<lambda>c. bucket_of c = k) rest"
    and t: "total_commits groups = total_commits (add_commit acc commit) + length rest"
    and d: "distinct (map fst (add_commit acc commit)) \<longrightarrow> distinct (map fst groups)"
    by blast
  have "reduce_commits (acc, contributors) (cur # segs) = Inr (groups, contributors')"
    using cur r by simp
  moreover have "\<forall>k. bucket groups k = bucket acc k @ filter (\<lambda>c. bucket_of c = k) commits"
    using b commits by (simp add: bucket_add_commit)
  moreover have "total_commits groups = total_commits acc + length commits"
    using t commits by (simp add: total_add_commit)
  moreover have "distinct (map fst acc) \<longrightarrow> distinct (map fst groups)"
    using d distinct_add_commit by blast
  ultimately show ?case by blast
qed

lemma all_parsed:
  "\<forall>cur \<in> set segs. \<exists>commit. parse_record cur = Inr commit
     \<Longrightarrow> \<exists>commits. map parse_record segs = map Inr commits"
proof (induction segs)
  case Nil
  then show ?case by simp
next
  case (Cons cur segs)
  then obtain commit commits where "parse_record cur = Inr commit"
    and "map parse_record segs = map Inr commits"
    by auto
  then have "map parse_record (cur # segs) = map Inr (commit # commits)" by simp
  then show ?case by blast
qed

text \<open>
  For a log whose N records are all accepted, \<open>parseCommits\<close> succeeds with N commits,
  one for each record, in buckets with distinct keys: the breaking bucket holds exactly
  the commits whose breaking flag is set, the bucket of a type holds exactly the other
  commits of that type, both in the order of the log, and the lengths of all buckets add
  up to N.
\<close>

lemma parseCommits_buckets:
  assumes "\<forall>cur \<in> set (records output). accepted_record cur"
  shows "\<exists>commits groups contributors.
           map parse_record (records output) = map Inr commits
           \<and> parseCommits output = Inr (groups, contributors)
           \<and> distinct (map fst groups)
           \<and> bucket groups Breaking = filter breaking commits
           \<and> (\<forall>t. bucket groups (Type t) = filter (\<lambda>c. \<not> breaking c \<and> type c = t) commits)
           \<and> total_commits groups = length (records output)"
proof -
  from assms have "\<forall>cur \<in> set (records output). \<exists>commit. parse_record cur = Inr commit"
    by (simp add: accepted_record_parsed)
  from all_parsed [OF this] obtain commits
    where commits: "map parse_record (records output) = map Inr commits" ..
  from reduce_commits_invariant [OF commits, of "[]" "[]"]
  obtain groups contributors where
    r: "reduce_commits ([], []) (records output) = Inr (groups, contributors)"
    and b: "\<forall>k. bucket groups k = bucket [] k @ filter (\<lambda>c. bucket_of c = k) commits"
    and t: "total_commits groups = total_commits [] + length commits"
    and d: "distinct (map fst ([] :: CommitGroup)) \<longrightarrow> distinct (map fst groups)"
    by blast
  have len: "length commits = length (records output)"
    using commits by (metis length_map)
  have b1: "bucket groups Breaking = filter breaking commits"
  proof -
    have "(\<lambda>c. bucket_of c = Breaking) = breaking"
      by (auto simp: bucket_of_def)
    with b show ?thesis by (simp add: bucket_def)
  qed
  have b2: "bucket groups (Type t) = filter (\<lambda>c. \<not> breaking c \<and> type c = t) commits" for t
  proof -
    have "(\<lambda>c. bucket_of c = Type t) = (\<lambda>c. \<not> breaking c \<and> type c = t)"
      by (auto simp: bucket_of_def)
    with b show ?thesis by (simp add: bucket_def)
  qed
  from r commits d b1 b2 t len show ?thesis
    by (auto simp: parseCommits_def total_commits_def)
qed

lemma parseCommits_buckets_example:
  "accepted_entry entry_X \<and> accepted_entry entry_Y
   \<and> encode_log [entry_X, entry_Y] = example_log
   \<and> records example_log = [record_X, record_Y]
   \<and> accepted_record record_X \<and> accepted_record record_Y
   \<and> (\<exists>commits groups contributors.
           map parse_record (records example_log) = map Inr commits
           \<and> parseCommits example_log = Inr (groups, contributors)
           \<and> distinct (map fst groups)
           \<and> bucket groups Breaking = filter breaking commits
           \<and> (\<forall>t. bucket groups (Type t) = filter (\<lambda>c. \<not> breaking c \<and> type c = t) commits)
           \<and> total_commits groups = length (records example_log))"
proof -
  have e: "accepted_entry entry_X \<and> accepted_entry entry_Y
           \<and> encode_log [entry_X, entry_Y] = example_log"
    by code_simp
  have r: "records example_log = [record_X, record_Y]"
    by code_simp
  from e have "\<forall>cur \<in> set (records (encode_log [entry_X, entry_Y])). accepted_record cur"
    by (intro conjunct2 [OF encoded_log_accepted]) simp
  with e have h: "\<forall>cur \<in> set (records example_log). accepted_record cur"
    by simp
  with r have "accepted_record record_X" "accepted_record record_Y"
    by simp_all
  with e r parseCommits_buckets [OF h] show ?thesis
    by blast
qed

text \<open>
  Claim C1 fails on the code. The log below has two records of the input format, the
  second with an empty body and an empty file list, a header of four fields and a
  recognised type. The claim has two commits in buckets whose lengths add up to two; the
  code throws on the second record and returns no commits at all.
\<close>

theorem absent_files_no_commits:
  "encode_log [entry_X, entry_no_files] = no_files_last_log
   \<and> records no_files_last_log = [record_X, encode_record entry_no_files]
   \<and> header_fields (encode_record entry_no_files)
       = Some [''e4f5a6b'', ''Bob'', ''1700000100'', ''fix: patch Y'']
   \<and> recognised_prefix ''fix: patch Y''
   \<and> parse_record record_X = Inr commit_X
   \<and> parseCommits no_files_last_log = Inl TypeError"
  by code_simp

subsection \<open>The breaking flag\<close>






section \<open>Properties of the renderer\<close>

lemma section_step_text:
  "section_step out entry = out @ section_step [] entry"
  by (auto simp: section_step_def split: group_key.splits prod.splits)

lemma category_sections_concat:
  "category_sections out commitGroups = out @ concat (map (section_step []) commitGroups)"
  unfolding category_sections_def
proof (induction commitGroups arbitrary: out)
  case Nil
  then show ?case by simp
next
  case (Cons entry entries)
  have "foldl section_step out (entry # entries)
          = foldl section_step (section_step out entry) entries"
    by simp
  also have "\<dots> = section_step out entry @ concat (map (section_step []) entries)"
    by (rule Cons.IH)
  also have "\<dots> = out @ section_step [] entry @ concat (map (section_step []) entries)"
    using section_step_text [of out entry] by simp
  finally show ?case by simp
qed

lemma sections_shown:
  "concat (map (section_step []) commitGroups)
     = concat (map (\<lambda>(t, commits). section_text t commits) (shown_sections commitGroups))"
  by (induction commitGroups rule: shown_sections.induct)
     (simp_all add: section_step_def section_text_def)

lemma keys_order_obj_set:
  "map fst (obj_set k v kvs)
     = (if k \<in> set (map fst kvs) then map fst kvs else map fst kvs @ [k])"
proof (induction kvs)
  case Nil
  then show ?case by simp
next
  case (Cons kv kvs)
  obtain k' v' where kv: "kv = (k', v')" by (cases kv)
  show ?case
  proof (cases "k' = k")
    case True
    with kv show ?thesis by simp
  next
    case False
    with kv Cons.IH show ?thesis by simp
  qed
qed

text \<open>
  Claim C5, as the code has it. The renderer emits the category sections in the order
  of the entries of \<open>commitGroups\<close>, leaving out the breaking entry and every empty
  bucket; each section has the display title of its category. The order of the entries
  is the order in which the categories were first inserted: the reducer keeps the keys
  as they are when the bucket of the commit exists and puts a new key last.
\<close>

theorem sections_in_insertion_order:
  "render_markdown commitGroups contributors
     = trim (breaking_section commitGroups
             @ concat (map (\<lambda>(t, commits). section_text t commits) (shown_sections commitGroups))
             @ thanks_section contributors)
   \<and> map fst (add_commit commitGroups commit)
       = (if bucket_of commit \<in> set (map fst commitGroups) then map fst commitGroups
          else map fst commitGroups @ [bucket_of commit])"
  by (simp add: render_markdown_def category_sections_concat sections_shown
        add_commit_def Let_def keys_order_obj_set)

theorem sections_in_insertion_order_witness:
  "render_markdown [(Type Fix, [commit_fix_Y]), (Breaking, []), (Type Docs, []), (Type Feat, [commit_X])]
       [''Bob'', ''Ann'']
     = ''## Fixes:\<newline>- (e4f5a6b) fix: patch Y\<newline>## Features:\<newline>- (a1b2c3d) feat: add X\<newline>## Thanks:\<newline>@Bob, @Ann''
   \<and> map fst (add_commit [(Type Fix, [commit_fix_Y])] commit_X) = [Type Fix, Type Feat]
   \<and> map fst (add_commit [(Type Fix, [commit_fix_Y]), (Type Feat, [commit_X])] commit_fix_Y)
       = [Type Fix, Type Feat]"
proof -
  have r: "trim (breaking_section [(Type Fix, [commit_fix_Y]), (Breaking, []), (Type Docs, []), (Type Feat, [commit_X])]
             @ concat (map (\<lambda>(t, commits). section_text t commits)
                 (shown_sections [(Type Fix, [commit_fix_Y]), (Breaking, []), (Type Docs, []), (Type Feat, [commit_X])]))
             @ thanks_section [''Bob'', ''Ann''])
      = ''## Fixes:\<newline>- (e4f5a6b) fix: patch Y\<newline>## Features:\<newline>- (a1b2c3d) feat: add X\<newline>## Thanks:\<newline>@Bob, @Ann''"
    by code_simp
  have k1: "bucket_of commit_X = Type Feat" and k2: "bucket_of commit_fix_Y = Type Fix"
    by (simp_all add: bucket_of_def commit_X_def commit_fix_Y_def)
  from r k1 k2
    sections_in_insertion_order
      [of "[(Type Fix, [commit_fix_Y]), (Breaking, []), (Type Docs, []), (Type Feat, [commit_X])]"
          "[''Bob'', ''Ann'']" commit_X]
    sections_in_insertion_order [of "[(Type Fix, [commit_fix_Y])]" "[]" commit_X]
    sections_in_insertion_order
      [of "[(Type Fix, [commit_fix_Y]), (Type Feat, [commit_X])]" "[]" commit_fix_Y]
  show ?thesis
    by simp
qed

text \<open>
  Claim C5 as stated fails: for a log with a \<open>fix\<close> commit before a \<open>feat\<close> commit the
  renderer puts the section of fixes first, where the order of the table of commit types
  has the features first.
\<close>

theorem sections_not_in_table_order:
  "parseCommits fix_first_log
     = Inr ([(Type Fix, [commit_fix_Y]), (Type Feat, [commit_X])], [''Bob'', ''Ann''])
   \<and> render_markdown [(Type Fix, [commit_fix_Y]), (Type Feat, [commit_X])] [''Bob'', ''Ann'']
       = ''## Fixes:\<newline>- (e4f5a6b) fix: patch Y\<newline>## Features:\<newline>- (a1b2c3d) feat: add X\<newline>## Thanks:\<newline>@Bob, @Ann''
   \<and> render_in_table_order [(Type Fix, [commit_fix_Y]), (Type Feat, [commit_X])] [''Bob'', ''Ann'']
       = ''## Features:\<newline>- (a1b2c3d) feat: add X\<newline>## Fixes:\<newline>- (e4f5a6b) fix: patch Y\<newline>## Thanks:\<newline>@Bob, @Ann''
   \<and> render_markdown [(Type Fix, [commit_fix_Y]), (Type Feat, [commit_X])] [''Bob'', ''Ann'']
       \<noteq> render_in_table_order [(Type Fix, [commit_fix_Y]), (Type Feat, [commit_X])] [''Bob'', ''Ann'']"
  by code_simp

lemma trimEnd_append:
  assumes "c \<in> set s" and "\<not> is_white_space c"
  shows "trimEnd (p @ s) = p @ trimEnd s"
proof -
  from assms have "dropWhile is_white_space (rev s @ rev p) = dropWhile is_white_space (rev s) @ rev p"
    by (intro dropWhile_append1 [of c]) simp_all
  then show ?thesis by (simp add: trimEnd_def)
qed

text \<open>
  Claim C7. When the breaking bucket is not empty, the rendered document is the heading
  of the breaking changes, one bullet \<open>- (hashAbbr) subject\<close> for each commit of the
  bucket in its order, and after them the category sections and the thanks. For the log
  of \<open>feat: add X\<close> and \<open>fix!: patch Y\<close> the breaking changes stand before the features.
\<close>

theorem breaking_section_first:
  assumes "map_of commitGroups Breaking = Some commits" and "commits \<noteq> []"
  shows "render_markdown commitGroups contributors
           = ''## Breaking Changes:\<newline>'' @ join ''\<newline>'' (map bullet commits)
             @ trimEnd (category_sections [] commitGroups @ thanks_section contributors)"
proof -
  let ?b = "''## Breaking Changes:\<newline>'' @ join ''\<newline>'' (map bullet commits)"
  let ?rest = "category_sections [] commitGroups @ thanks_section contributors"
  from assms have b: "breaking_section commitGroups = ?b"
    by (simp add: breaking_section_def)
  have "category_sections ?b commitGroups = ?b @ category_sections [] commitGroups"
    using category_sections_concat [of ?b] category_sections_concat [of "[]"] by simp
  with b have "render_markdown commitGroups contributors = trim (?b @ ?rest)"
    by (simp add: render_markdown_def)
  also have "\<dots> = trimEnd (?b @ ?rest)"
    by (simp add: trim_def is_white_space_def)
  also have "\<dots> = ?b @ trimEnd ?rest"
  proof (rule trimEnd_append)
    show "CHR ''#'' \<in> set ?rest" by (simp add: thanks_section_def)
    show "\<not> is_white_space CHR ''#''" by (simp add: is_white_space_def)
  qed
  finally show ?thesis by simp
qed

theorem breaking_section_first_witness:
  "parseCommits example_log = Inr ([(Type Feat, [commit_X]), (Breaking, [commit_Y])], [''Ann'', ''Bob''])
   \<and> map_of [(Type Feat, [commit_X]), (Breaking, [commit_Y])] Breaking = Some [commit_Y]
   \<and> [commit_Y] \<noteq> []
   \<and> render_markdown [(Type Feat, [commit_X]), (Breaking, [commit_Y])] [''Ann'', ''Bob'']
       = ''## Breaking Changes:\<newline>- (e4f5a6b) fix!: patch Y\<newline>## Features:\<newline>- (a1b2c3d) feat: add X\<newline>## Thanks:\<newline>@Ann, @Bob''"
proof -
  have p: "parseCommits example_log
             = Inr ([(Type Feat, [commit_X]), (Breaking, [commit_Y])], [''Ann'', ''Bob''])"
    by code_simp
  have h1: "map_of [(Type Feat, [commit_X]), (Breaking, [commit_Y])] Breaking = Some [commit_Y]"
    by simp
  have h2: "[commit_Y] \<noteq> []" by simp
  have r: "''## Breaking Changes:\<newline>'' @ join ''\<newline>'' (map bullet [commit_Y])
             @ trimEnd (category_sections [] [(Type Feat, [commit_X]), (Breaking, [commit_Y])]
                          @ thanks_section [''Ann'', ''Bob''])
           = ''## Breaking Changes:\<newline>- (e4f5a6b) fix!: patch Y\<newline>## Features:\<newline>- (a1b2c3d) feat: add X\<newline>## Thanks:\<newline>@Ann, @Bob''"
    by code_simp
  from p h1 h2 r breaking_section_first [OF h1 h2, of "[''Ann'', ''Bob'']"] show ?thesis
    by simp
qed

section \<open>Properties of the release\<close>

text \<open>
  Claim C8. In a dry run \<open>generateChangelog\<close> does nothing but read the log, with the
  upper bound \<open>HEAD\<close>, and write to the console: no push and no request to the release
  API. Otherwise the log is read with the upper bound \<open>to^\<close>. The last argument of the
  log command is the range \<open>from...to\<close>.
\<close>

theorem generateChangelog_dry_run:
  "(dryRun p \<longrightarrow>
      (\<exists>logs. snd (generateChangelog e p w)
                = w @ Spawn ''git'' (log_args (param_from p) ''HEAD'') # map ConsoleLog logs))
   \<and> (\<not> dryRun p \<longrightarrow>
      (\<exists>rest. snd (generateChangelog e p w)
                = w @ Spawn ''git'' (log_args (param_from p) (param_to p @ ''^'')) # rest))
   \<and> last (log_args from to) = from @ ''...'' @ to"
proof (intro conjI impI)
  assume dry: "dryRun p"
  let ?cmd = "Spawn ''git'' (log_args (param_from p) ''HEAD'')"
  show "\<exists>logs. snd (generateChangelog e p w) = w @ ?cmd # map ConsoleLog logs"
  proof (cases "renderChangeLogMarkdown e (param_from p) ''HEAD'' w")
    case (Pair r w1)
    have w1: "w1 = w @ [?cmd]"
      using Pair
      by (auto simp: renderChangeLogMarkdown_def getCommits_def runCommand_def
               split: sum.splits prod.splits)
    show ?thesis
    proof (cases r)
      case (Inl err)
      with Pair dry w1 have "snd (generateChangelog e p w) = w @ ?cmd # map ConsoleLog []"
        by (simp add: generateChangelog_def)
      then show ?thesis by blast
    next
      case (Inr markdown)
      with Pair dry w1 have "snd (generateChangelog e p w)
          = w @ ?cmd # map ConsoleLog
              [markdown, ''Skipping github push and release because dry run was set...'']"
        by (simp add: generateChangelog_def Let_def)
      then show ?thesis by blast
    qed
  qed
next
  assume wet: "\<not> dryRun p"
  let ?cmd = "Spawn ''git'' (log_args (param_from p) (param_to p @ ''^''))"
  show "\<exists>rest. snd (generateChangelog e p w) = w @ ?cmd # rest"
  proof (cases "renderChangeLogMarkdown e (param_from p) (param_to p @ ''^'') w")
    case (Pair r w1)
    have w1: "w1 = w @ [?cmd]"
      using Pair
      by (auto simp: renderChangeLogMarkdown_def getCommits_def runCommand_def
               split: sum.splits prod.splits)
    show ?thesis
      using Pair wet w1
      by (auto simp: generateChangelog_def Let_def createGitHubPush_def runCommand_def
                     getParentHashFromVersionTag_def createGitHubRelease_def
               split: sum.splits prod.splits option.splits)
  qed
next
  show "last (log_args from to) = from @ ''...'' @ to"
    by (simp add: log_args_def)
qed

theorem generateChangelog_dry_run_witness:
  "dryRun dry_params
   \<and> (\<exists>logs. snd (generateChangelog example_env dry_params [])
               = [] @ Spawn ''git'' (log_args (param_from dry_params) ''HEAD'') # map ConsoleLog logs)
   \<and> \<not> dryRun release_params
   \<and> (\<exists>rest. snd (generateChangelog example_env release_params [])
               = [] @ Spawn ''git'' (log_args (param_from release_params) (param_to release_params @ ''^''))
                   # rest)"
proof -
  have h1: "dryRun dry_params" by (simp add: dry_params_def)
  have h2: "\<not> dryRun release_params" by (simp add: release_params_def dry_params_def)
  from h1 h2 generateChangelog_dry_run [of dry_params example_env "[]"]
    generateChangelog_dry_run [of release_params example_env "[]"]
  show ?thesis by simp
qed

section \<open>Properties of the release API client\<close>

text \<open>
  Claim C9. Without the token in the environment, \<open>createGitHubRelease\<close> fails with an
  error and the world is as before: no request has been sent.
\<close>

theorem createGitHubRelease_without_token:
  "GITHUB_TOKEN e = None \<Longrightarrow>
     \<exists>message. createGitHubRelease e p w = (Inl (Error message), w)"
  by (simp add: createGitHubRelease_def)

theorem createGitHubRelease_without_token_witness:
  "GITHUB_TOKEN example_env = None
   \<and> (\<exists>message. createGitHubRelease example_env example_release [] = (Inl (Error message), []))"
proof -
  have h: "GITHUB_TOKEN example_env = None"
    by (simp add: example_env_def)
  from h createGitHubRelease_without_token [OF h] show ?thesis by simp
qed

end
